theory Spec2Isabelle
  imports Complex_Main
begin

section \<open>Data model\<close>

text \<open>
  The itinerary optimiser of \<^verbatim>\<open>optimize_london_itinerary.py\<close>. Python's \<^verbatim>\<open>str\<close> is
  modelled as \<^typ>\<open>string\<close> (code points below 256), \<^verbatim>\<open>int\<close> as \<^typ>\<open>int\<close>, and
  \<^verbatim>\<open>float\<close> as \<^typ>\<open>real\<close>: coordinates and distances are computed with exact real
  arithmetic, so rounding of IEEE doubles is not part of the model. Exceptions are values
  of the type \<open>error\<close>, returned on the left of a sum.
\<close>

datatype error = ValueError string | IndexError | KeyError | OverflowError

record LocationInfo =
  name :: string
  lat :: real
  lon :: real
  category :: string
  default_duration :: int
  aliases :: "string list"
  notes' :: string

text \<open>The field \<^verbatim>\<open>notes\<close> is written \<open>notes'\<close>: \<^verbatim>\<open>notes\<close> is a keyword. The
  fields \<^verbatim>\<open>details\<close> and \<^verbatim>\<open>title\<close> occur in two dataclasses of the source; the
  ones of \<^verbatim>\<open>TimelineItem\<close> and \<^verbatim>\<open>DaySection\<close> carry a prefix here.\<close>

record TimelineItem =
  time :: string
  activity :: string
  item_details :: string

record DaySection =
  index :: int
  day_title :: string
  theme :: string
  lines :: "string list"
  timeline :: "TimelineItem list"
  locations :: "string list"
  removed_duplicates :: "string list"
  added_essentials :: "string list"

text \<open>\<^verbatim>\<open>Segment.end\<close> is written \<open>end'\<close>: \<^verbatim>\<open>end\<close> is a keyword.\<close>

record Segment =
  start :: int
  end' :: int
  title :: string
  location :: string
  details :: string
  segment_type :: string

section \<open>Geographic data and configuration\<close>

definition loc ::
  "string \<Rightarrow> real \<Rightarrow> real \<Rightarrow> string \<Rightarrow> int \<Rightarrow> string list \<Rightarrow> string \<Rightarrow> LocationInfo" where
  "loc n la lo c d als nts =
     \<lparr>name = n, lat = la, lon = lo, category = c, default_duration = d, aliases = als,
      notes' = nts\<rparr>"

definition LOCATION_LIBRARY :: "LocationInfo list" where
  "LOCATION_LIBRARY = [
    loc ''Heathrow Airport'' 51.4700 (-0.4543) ''transport'' 30 [''heathrow'', ''arrivee heathrow''] '''',
    loc ''Paddington Station'' 51.5154 (-0.1754) ''transport'' 15 [''paddington''] '''',
    loc ''Southwark Station'' 51.5046 (-0.1050) ''transport'' 10 [''southwark''] '''',
    loc ''citizenM London Bankside'' 51.5055 (-0.0993) ''hotel'' 30 [''citizenm'', ''citizenm bankside'', ''citizenm london bankside''] '''',
    loc ''South Bank Promenade'' 51.5073 (-0.0995) ''walk'' 60 [''south bank''] '''',
    loc ''London Eye'' 51.5033 (-0.1196) ''landmark'' 60 [''london eye''] '''',
    loc ''Carnaby Street'' 51.5135 (-0.1394) ''walk'' 45 [''carnaby''] '''',
    loc ''Oxford Circus'' 51.5150 (-0.1410) ''landmark'' 10 [''oxford circus''] '''',
    loc ''Regent Street'' 51.5145 (-0.1420) ''walk'' 30 [''regent street''] '''',
    loc ''Oxford Street'' 51.5154 (-0.1410) ''walk'' 30 [''oxford street''] '''',
    loc ''Covent Garden'' 51.5129 (-0.1226) ''landmark'' 45 [''covent garden''] '''',
    loc ''Seven Dials Market'' 51.5135 (-0.1258) ''food'' 60 [''seven dials''] '''',
    loc ''Soho'' 51.5136 (-0.1365) ''walk'' 60 [''soho''] '''',
    loc ''Liberty London'' 51.5136 (-0.1406) ''shopping'' 45 [''liberty london'', ''liberty''] ''Grand magasin emblematique.'',
    loc ''Mayfair Arcades'' 51.5090 (-0.1488) ''walk'' 60 [''mayfair''] '''',
    loc ''Harrods'' 51.4996 (-0.1635) ''shopping'' 75 [''harrods''] '''',
    loc ''New Bond Street'' 51.5123 (-0.1497) ''shopping'' 45 [''bond street'', ''new bond street''] '''',
    loc ''Sketch Mayfair'' 51.5114 (-0.1417) ''food'' 75 [''sketch''] '''',
    loc ''Buckingham Palace'' 51.5014 (-0.1419) ''landmark'' 40 [''buckingham'', ''buckingham palace''] '''',
    loc ''St James's Park'' 51.5010 (-0.1365) ''park'' 40 [''st james'', ''st james's park''] '''',
    loc ''Hyde Park Winter Wonderland'' 51.5073 (-0.1668) ''experience'' 150 [''winter wonderland'', ''hyde park winter wonderland''] '''',
    loc ''Hyde Park'' 51.5073 (-0.1657) ''park'' 60 [''hyde park''] '''',
    loc ''Bavarian Village'' 51.5071 (-0.1689) ''food'' 60 [''bavarian village''] '''',
    loc ''Alpen Village'' 51.5080 (-0.1698) ''food'' 45 [''alpen village''] '''',
    loc ''Bankside Pier'' 51.5079 (-0.0980) ''transport'' 10 [''bankside pier''] '''',
    loc ''Westminster Pier'' 51.5010 (-0.1230) ''transport'' 10 [''westminster pier''] '''',
    loc ''Palace of Westminster'' 51.4995 (-0.1245) ''landmark'' 30 [''palais de westminster'', ''westminster'', ''big ben''] '''',
    loc ''Buckingham Gate'' 51.4990 (-0.1414) ''transfer'' 15 [''whitehall''] '''',
    loc ''Trafalgar Square'' 51.5080 (-0.1281) ''landmark'' 45 [''trafalgar square''] '''',
    loc ''National Gallery'' 51.5089 (-0.1283) ''museum'' 60 [''national gallery''] '''',
    loc ''Fortnum & Mason'' 51.5097 (-0.1396) ''shopping'' 60 [''fortnum'', ''fortnum & mason''] '''',
    loc ''Piccadilly Arcade'' 51.5080 (-0.1380) ''shopping'' 40 [''piccadilly''] '''',
    loc ''British Museum'' 51.5194 (-0.1269) ''museum'' 90 [''british museum''] '''',
    loc ''St Martin-in-the-Fields'' 51.5091 (-0.1269) ''landmark'' 30 [''st martin''] '''',
    loc ''St Paul's Cathedral'' 51.5138 (-0.0984) ''landmark'' 60 [''st paul'', ''st paul's cathedral''] '''',
    loc ''Sky Garden'' 51.5107 (-0.0830) ''landmark'' 45 [''sky garden''] '''',
    loc ''Leadenhall Market'' 51.5123 (-0.0830) ''walk'' 40 [''leadenhall''] '''',
    loc ''Borough Market'' 51.5054 (-0.0911) ''food'' 60 [''borough market''] '''',
    loc ''The Shard'' 51.5045 (-0.0865) ''landmark'' 40 [''the shard'', ''shard''] '''',
    loc ''Tower Bridge'' 51.5055 (-0.0754) ''landmark'' 45 [''tower bridge''] '''',
    loc ''Tower of London'' 51.5081 (-0.0759) ''landmark'' 60 [''tower of london''] '''',
    loc ''Camden Market'' 51.5416 (-0.1460) ''experience'' 90 [''camden'', ''camden market''] '''',
    loc ''Seabird Rooftop'' 51.5084 (-0.1002) ''food'' 90 [''seabird''] '''',
    loc ''Hawksmoor Borough'' 51.5059 (-0.0919) ''food'' 90 [''hawksmoor'', ''hawksmoor borough''] '''',
    loc ''OXO Tower'' 51.5076 (-0.1117) ''food'' 90 [''oxo tower'', ''oxo tower bar'', ''oxo tower brasserie''] '''',
    loc ''Oblix at The Shard'' 51.5045 (-0.0865) ''food'' 120 [''oblix'', ''oblix the shard''] '''',
    loc ''The Gentlemen Baristas Bankside'' 51.5066 (-0.0999) ''food'' 30 [''gentlemen baristas''] '''',
    loc ''Somerset House'' 51.5113 (-0.1163) ''landmark'' 45 [''somerset house''] '''']"

definition ESSENTIALS_BY_THEME :: "(string \<times> string list) list" where
  "ESSENTIALS_BY_THEME = [
    (''arrival'', [''citizenM London Bankside'',
      ''South Bank Promenade'',
      ''London Eye'',
      ''Carnaby Street'',
      ''Regent Street'',
      ''Covent Garden'']),
    (''mayfair'', [''Soho'',
      ''Liberty London'',
      ''New Bond Street'',
      ''Fortnum & Mason'',
      ''Buckingham Palace'',
      ''St James's Park'',
      ''Hyde Park'']),
    (''city'', [''South Bank Promenade'',
      ''London Eye'',
      ''Borough Market'',
      ''Westminster Pier'',
      ''Trafalgar Square'',
      ''Piccadilly Arcade'',
      ''Fortnum & Mason'',
      ''Harrods'',
      ''Tower Bridge'',
      ''Oblix at The Shard'']),
    (''departure'', [''The Gentlemen Baristas Bankside'',
      ''citizenM London Bankside''])]"

definition HOTEL_NAME :: string where
  "HOTEL_NAME = ''citizenM London Bankside''"

definition TRANSIT_OVERRIDES :: "((string \<times> string) \<times> int) list" where
  "TRANSIT_OVERRIDES = [
    ((''Heathrow Airport'', ''Paddington Station''), 15),
    ((''Paddington Station'', HOTEL_NAME), 30),
    ((HOTEL_NAME, ''Paddington Station''), 30),
    ((''Paddington Station'', ''Heathrow Airport''), 15),
    ((HOTEL_NAME, ''Heathrow Airport''), 75),
    ((''Heathrow Airport'', HOTEL_NAME), 75)]"

text \<open>A dict literal or a dict filled by assignment keeps the last value written for a
  key; \<open>dict_get\<close> reads an association list that way.\<close>

definition dict_get :: "('k \<times> 'v) list \<Rightarrow> 'k \<Rightarrow> 'v option" where
  "dict_get kvs k = map_of (rev kvs) k"

definition LOCATION_MAP :: "string \<Rightarrow> LocationInfo option" where
  "LOCATION_MAP = dict_get (map (\<lambda>l. (name l, l)) LOCATION_LIBRARY)"

definition LOCATION_DESCRIPTIONS :: "(string \<times> string) list" where
  "LOCATION_DESCRIPTIONS = [
    (''citizenM London Bankside'',
      ''Check-in et petite pause pour poser les valises.''),
    (''South Bank Promenade'',
      ''Flane le long de la Tamise, ambiance street art et food stalls.''),
    (''London Eye'',
      ''Vue panoramique douce pour se mettre dans l'ambiance.''),
    (''Carnaby Street'',
      ''Rue pop aux illuminations iconiques, parfaite en debut de soiree.''),
    (''Regent Street'',
      ''Arches lumineuses et vitrines de Noel pour une balade tranquille.''),
    (''Covent Garden'',
      ''Sapin geant, stands gourmands et atmosphere musicale.''),
    (''Soho'',
      ''Quartier vivant, cafes cosy et ruelles creatives.''),
    (''Liberty London'',
      ''Grand magasin a colombages, selection mode et deco arty.''),
    (''New Bond Street'',
      ''Vitrines de luxe et decors scintillants.''),
    (''Fortnum & Mason'',
      ''Maison de the historique, parfait pour une pause sucrerie.''),
    (''Buckingham Palace'',
      ''Cliche photo devant la residence royale, ambiance carte postale.''),
    (''St James's Park'',
      ''Parc apaisant pour respirer entre deux balades urbaines.''),
    (''Hyde Park'',
      ''Grand bol d'air, Winter Wonderland juste a cote.''),
    (''Hyde Park Winter Wonderland'',
      ''Attractions festives, vin chaud et grande roue.''),
    (''Trafalgar Square'',
      ''Esplanade animee, musiciens et illuminations historiques.''),
    (''Piccadilly Arcade'',
      ''Passage couvert elegant juste a cote de Piccadilly Circus.''),
    (''Harrods'',
      ''Galeries gourmandes et vitrines legendaires de Noel.''),
    (''Borough Market'',
      ''Marche gourmet aux stands de Noel pour grignoter local.''),
    (''The Shard'',
      ''Gratte-ciel iconique offrant un panorama grandiose.''),
    (''Oblix at The Shard'',
      ''Diner panoramique avec vue sur toute la ville.''),
    (''Tower Bridge'',
      ''Balade au bord de la Tamise avec iconique pont victorien.''),
    (''Mayfair Arcades'',
      ''Arcanes elegantes, idees cadeaux haut de gamme.''),
    (''Sketch Mayfair'',
      ''Pause healthy ou gourmandise dans un cadre arty.''),
    (''Bavarian Village'',
      ''Chalets en bois, biere chaude et musique live.''),
    (''Alpen Village'',
      ''Chemin gourmand plus calme pour se poser.'')]"

definition TRANSFER_NOTES :: "((string \<times> string) \<times> string) list" where
  "TRANSFER_NOTES = [
    ((''Heathrow Airport'', ''citizenM London Bankside''),
      ''Heathrow Express jusqu'a Paddington puis taxi/metro (75 min).''),
    ((''citizenM London Bankside'', ''Harrods''),
      ''Metro Jubilee puis Piccadilly Line (30 min environ).''),
    ((''citizenM London Bankside'', ''Hyde Park''),
      ''Metro Jubilee -> Green Park puis promenade (25 min).''),
    ((''citizenM London Bankside'', ''Oblix at The Shard''),
      ''Marche 10 min jusqu'au Shard, profiter des elevateurs panorama.'')]"

definition PREFERRED_ORDER :: "(string \<times> string list) list" where
  "PREFERRED_ORDER = [
    (''arrival'', [''Carnaby Street'',
      ''Regent Street'',
      ''Oxford Street'',
      ''Oxford Circus'',
      ''Covent Garden'',
      ''South Bank Promenade'']),
    (''mayfair'', [''Soho'',
      ''Liberty London'',
      ''New Bond Street'',
      ''Fortnum & Mason'',
      ''Buckingham Palace'',
      ''St James's Park'',
      ''Hyde Park'',
      ''Hyde Park Winter Wonderland'',
      ''Bavarian Village'',
      ''Alpen Village'']),
    (''city'', [''South Bank Promenade'',
      ''London Eye'',
      ''Borough Market'',
      ''Westminster Pier'',
      ''Trafalgar Square'',
      ''Piccadilly Arcade'',
      ''Fortnum & Mason'',
      ''Harrods'',
      ''Tower Bridge'',
      ''The Shard'',
      ''Oblix at The Shard'']),
    (''departure'', [''The Gentlemen Baristas Bankside''])]"

section \<open>Day time bounds\<close>

text \<open>
  \<^verbatim>\<open>re.findall(r"(\d{1,2})h(\d{2})", s)\<close>: on code points below 256 the class
  \<^verbatim>\<open>\d\<close> is \<open>0\<close> to \<open>9\<close>. A match at the head of \<open>s\<close> is two digits, \<open>h\<close>, two
  digits, or one digit, \<open>h\<close>, two digits (after two digits the one-digit alternative
  cannot succeed, its \<open>h\<close> would have to be the second digit). The scan resumes behind a
  match and one character further where there is none.
\<close>

definition is_digit :: "char \<Rightarrow> bool" where
  "is_digit c \<longleftrightarrow> c \<in> set ''0123456789''"

fun match_time_here :: "string \<Rightarrow> ((string \<times> string) \<times> string) option" where
  "match_time_here (a # b # c # d # rest) =
     (if is_digit a \<and> is_digit b then
        (case rest of
           e # rest' \<Rightarrow>
             if c = CHR ''h'' \<and> is_digit d \<and> is_digit e
             then Some (([a, b], [d, e]), rest') else None
         | [] \<Rightarrow> None)
      else if is_digit a \<and> b = CHR ''h'' \<and> is_digit c \<and> is_digit d
      then Some (([a], [c, d]), rest)
      else None)"
| "match_time_here _ = None"

function findall_time :: "string \<Rightarrow> (string \<times> string) list" where
  "findall_time [] = []"
| "findall_time (c # cs) =
     (case match_time_here (c # cs) of
        Some (groups, rest) \<Rightarrow> groups # findall_time rest
      | None \<Rightarrow> findall_time cs)"
  by pat_completeness auto

termination findall_time
  by (relation "measure length")
     (auto elim!: match_time_here.elims split: if_splits list.splits)

text \<open>\<^verbatim>\<open>int\<close> of a string of decimal digits.\<close>

definition digit_value :: "char \<Rightarrow> int" where
  "digit_value c = int (of_char c) - 48"

definition py_int :: "string \<Rightarrow> int" where
  "py_int s = foldl (\<lambda>acc c. 10 * acc + digit_value c) 0 s"

text \<open>
  \<^verbatim>\<open>time_str.replace(EN DASH, "-").replace(EM DASH, "-")\<close>: the two dashes (U+2013
  and U+2014) are code points above 255, which a \<^typ>\<open>string\<close> does not hold, so the replacement leaves every
  modelled string as it is.
\<close>

definition replace_dashes :: "string \<Rightarrow> string" where
  "replace_dashes s = s"

definition parse_time_range :: "string \<Rightarrow> error + (int \<times> int)" where
  "parse_time_range time_str =
     (let normalized = replace_dashes time_str;
          matches = findall_time normalized
      in case matches of
           [] \<Rightarrow> Inl (ValueError (''Format dheure inattendu: '' @ time_str))
         | (start_hour, start_min) # others \<Rightarrow>
             let start_total = py_int start_hour * 60 + py_int start_min;
                 end_total =
                   (case others of
                      (end_hour, end_min) # _ \<Rightarrow> py_int end_hour * 60 + py_int end_min
                    | [] \<Rightarrow> start_total + 60)
             in Inr (start_total, end_total))"

text \<open>
  The loop of \<^verbatim>\<open>get_day_time_bounds\<close>. \<^verbatim>\<open>start\<close> begins as \<^verbatim>\<open>math.inf\<close> and \<^verbatim>\<open>end\<close> as
  \<^verbatim>\<open>-math.inf\<close>, both written \<open>None\<close>; the first parsed range replaces them by
  integers. An exception of \<^verbatim>\<open>parse_time_range\<close> leaves the loop and the function.
\<close>

fun time_bounds_loop ::
  "TimelineItem list \<Rightarrow> int option \<times> int option \<Rightarrow> error + (int option \<times> int option)" where
  "time_bounds_loop [] acc = Inr acc"
| "time_bounds_loop (item # items) (start_acc, end_acc) =
     (case parse_time_range (time item) of
        Inl e \<Rightarrow> Inl e
      | Inr (start_min, end_min) \<Rightarrow>
          time_bounds_loop items
            (Some (case start_acc of None \<Rightarrow> start_min | Some s \<Rightarrow> min s start_min),
             Some (case end_acc of None \<Rightarrow> end_min | Some e \<Rightarrow> max e end_min)))"

definition presets :: "(string \<times> (int \<times> int)) list" where
  "presets = [
     (''arrival'', (15 * 60, 23 * 60)),
     (''mayfair'', (9 * 60 + 30, 22 * 60)),
     (''city'', (9 * 60, 21 * 60 + 30)),
     (''departure'', (7 * 60, 12 * 60))]"

definition get_day_time_bounds :: "DaySection \<Rightarrow> error + (int \<times> int)" where
  "get_day_time_bounds day =
     (case time_bounds_loop (timeline day) (None, None) of
        Inl e \<Rightarrow> Inl e
      | Inr (None, _) \<Rightarrow>
          Inr (case dict_get presets (theme day) of
                 Some b \<Rightarrow> b
               | None \<Rightarrow> (9 * 60, 21 * 60))
      | Inr (Some start0, None) \<Rightarrow> Inl OverflowError
      | Inr (Some start0, Some end0) \<Rightarrow>
          let end1 = (if theme day = ''city'' \<and> end0 < 22 * 60 + 30 then 22 * 60 + 30 else end0)
          in Inr (start0, min end1 (23 * 60 + 30)))"


section \<open>Distances and travel times\<close>

text \<open>
  \<^verbatim>\<open>math.radians\<close>, \<^verbatim>\<open>math.sin\<close>, \<^verbatim>\<open>math.cos\<close>, \<^verbatim>\<open>math.asin\<close> and \<^verbatim>\<open>math.sqrt\<close> are the
  real functions. The argument \<open>h\<close> of the square root and of the arcsine lies between
  0 and 1 for every pair of points (lemma \<open>haversine_km_domain\<close> below), so the domain
  errors of \<^verbatim>\<open>math.sqrt\<close> and \<^verbatim>\<open>math.asin\<close> have no branch here.
\<close>

definition radians :: "real \<Rightarrow> real" where
  "radians x = x * pi / 180"

definition haversine_km :: "real \<times> real \<Rightarrow> real \<times> real \<Rightarrow> real" where
  "haversine_km a b =
     (let lat1 = radians (fst a); lon1 = radians (snd a);
          lat2 = radians (fst b); lon2 = radians (snd b);
          dlat = lat2 - lat1;
          dlon = lon2 - lon1;
          h = (sin (dlat / 2))\<^sup>2 + cos lat1 * cos lat2 * (sin (dlon / 2))\<^sup>2
      in 6371 * (2 * arcsin (sqrt h)))"

text \<open>\<^verbatim>\<open>distance_between\<close> returns \<^verbatim>\<open>float("inf")\<close> for an unknown name: \<open>None\<close> here.
  \<open>dist_less\<close> is \<^verbatim>\<open><\<close> on such values.\<close>

definition distance_between :: "string \<Rightarrow> real \<times> real \<Rightarrow> real option" where
  "distance_between location_name point =
     (case LOCATION_MAP location_name of
        None \<Rightarrow> None
      | Some l \<Rightarrow> Some (haversine_km (lat l, lon l) point))"

fun dist_less :: "real option \<Rightarrow> real option \<Rightarrow> bool" where
  "dist_less None _ = False"
| "dist_less (Some x) None = True"
| "dist_less (Some x) (Some y) = (x < y)"

definition distance_between_pair :: "string \<Rightarrow> string \<Rightarrow> real" where
  "distance_between_pair a_name b_name =
     (if a_name = b_name then 0
      else case (LOCATION_MAP a_name, LOCATION_MAP b_name) of
             (Some a, Some b) \<Rightarrow> haversine_km (lat a, lon a) (lat b, lon b)
           | _ \<Rightarrow> 999)"

text \<open>\<^verbatim>\<open>int(x)\<close> of a float truncates towards zero.\<close>

definition py_trunc :: "real \<Rightarrow> int" where
  "py_trunc x = (if 0 \<le> x then \<lfloor>x\<rfloor> else \<lceil>x\<rceil>)"

definition walkable :: "string set" where
  "walkable = {''walk'', ''landmark'', ''shopping'', ''park''}"

definition estimate_travel_minutes :: "string \<Rightarrow> string \<Rightarrow> int" where
  "estimate_travel_minutes a_name b_name =
     (if a_name = b_name then 0
      else case dict_get TRANSIT_OVERRIDES (a_name, b_name) of
        Some m \<Rightarrow> m
      | None \<Rightarrow>
         (case dict_get TRANSIT_OVERRIDES (b_name, a_name) of
            Some m \<Rightarrow> m
          | None \<Rightarrow>
             (let distance = distance_between_pair a_name b_name
              in case (LOCATION_MAP a_name, LOCATION_MAP b_name) of
                   (Some loc_a, Some loc_b) \<Rightarrow>
                     let base_speed_kmh =
                           (if category loc_a \<in> walkable \<and> category loc_b \<in> walkable
                            then 3.8 else 5.0);
                         minutes = py_trunc ((distance / max base_speed_kmh 0.1) * 60)
                     in max minutes 8
                 | _ \<Rightarrow> py_trunc (distance / 4.5 * 60) + 5)))"

section \<open>Segment texts\<close>

text \<open>\<^verbatim>\<open>str.capitalize\<close> on the letters of ASCII, which the catalog's categories are
  made of.\<close>

definition upper_char :: "char \<Rightarrow> char" where
  "upper_char c =
     (let n = (of_char c :: nat) in if 97 \<le> n \<and> n \<le> 122 then char_of (n - 32) else c)"

definition lower_char :: "char \<Rightarrow> char" where
  "lower_char c =
     (let n = (of_char c :: nat) in if 65 \<le> n \<and> n \<le> 90 then char_of (n + 32) else c)"

fun capitalize :: "string \<Rightarrow> string" where
  "capitalize [] = []"
| "capitalize (c # cs) = upper_char c # map lower_char cs"

definition describe_location :: "string \<Rightarrow> string" where
  "describe_location n =
     (case dict_get LOCATION_DESCRIPTIONS n of
        Some d \<Rightarrow> d
      | None \<Rightarrow>
         (case LOCATION_MAP n of
            None \<Rightarrow> []
          | Some info \<Rightarrow>
              if category info = ''food'' then ''Pause gourmande en douceur.''
              else if category info = ''walk'' then ''Balade libre pour profiter du quartier.''
              else if category info = ''landmark''
              then ''Point de vue iconique a decouvrir tranquillement.''
              else capitalize (category info)))"

text \<open>\<^verbatim>\<open>TRANSFER_NOTES.get((start, end)) or TRANSFER_NOTES.get((end, start))\<close>: an absent or
  empty note is false.\<close>

definition friendly_transfer_detail :: "string \<Rightarrow> string \<Rightarrow> int \<Rightarrow> string" where
  "friendly_transfer_detail a b duration =
     (let forward = dict_get TRANSFER_NOTES (a, b);
          note = (if forward \<noteq> None \<and> forward \<noteq> Some [] then forward
                  else dict_get TRANSFER_NOTES (b, a))
      in case note of
           Some (c # cs) \<Rightarrow> c # cs
         | _ \<Rightarrow>
            if duration \<le> 15 then ''Petite marche ou trajet rapide (<= 15 min).''
            else if duration \<le> 30 then ''Deplacement fluide (~30 min), prends ton temps.''
            else ''Prevoir ce trajet sans stress, musique ou podcast en route.'')"

section \<open>The day scheduler\<close>

definition mk_segment :: "int \<Rightarrow> int \<Rightarrow> string \<Rightarrow> string \<Rightarrow> string \<Rightarrow> string \<Rightarrow> Segment" where
  "mk_segment s e t l d k =
     \<lparr>start = s, end' = e, title = t, location = l, details = d, segment_type = k\<rparr>"

text \<open>The first loop: the day's locations that the catalog knows and that are neither
  transport nor hotel.\<close>

definition poi_filter :: "string list \<Rightarrow> string list" where
  "poi_filter locs =
     filter (\<lambda>l. case LOCATION_MAP l of
                    None \<Rightarrow> False
                  | Some info \<Rightarrow> category info \<notin> {''transport'', ''hotel''}) locs"

definition drop_shard :: "string list \<Rightarrow> string list" where
  "drop_shard poi_locations =
     (if ''Oblix at The Shard'' \<in> set poi_locations \<and> ''The Shard'' \<in> set poi_locations
      then filter (\<lambda>l. l \<noteq> ''The Shard'') poi_locations
      else poi_locations)"

text \<open>The order of the visits: the preferred names that the day has, then the day's
  other locations, each once; a city day ends with the dinner at Oblix.\<close>

definition visits_order_of :: "string \<Rightarrow> string list \<Rightarrow> string list" where
  "visits_order_of th poi_locations =
     (let preferred = (case dict_get PREFERRED_ORDER th of Some p \<Rightarrow> p | None \<Rightarrow> []);
          v1 = foldl (\<lambda>vo n. if n \<in> set poi_locations \<and> n \<notin> set vo then vo @ [n] else vo)
                 [] preferred;
          v2 = foldl (\<lambda>vo n. if n \<notin> set vo then vo @ [n] else vo) v1 poi_locations
      in if th = ''city'' \<and> ''Oblix at The Shard'' \<notin> set v2
         then v2 @ [''Oblix at The Shard''] else v2)"

text \<open>The state of the scheduler: \<^verbatim>\<open>current_time\<close>, \<^verbatim>\<open>previous\<close> and \<^verbatim>\<open>segments\<close>.\<close>

type_synonym sched = "int \<times> string \<times> Segment list"

text \<open>The arrival block: the airport, the transfer to the hotel, the check-in.
  \<^verbatim>\<open>LOCATION_MAP[...]\<close> raises \<^verbatim>\<open>KeyError\<close> on a name the catalog lacks.\<close>

definition arrival_block :: "int \<Rightarrow> error + sched" where
  "arrival_block current_time =
     (case LOCATION_MAP ''Heathrow Airport'' of
        None \<Rightarrow> Inl KeyError
      | Some arrival \<Rightarrow>
          let seg1 = mk_segment current_time (current_time + default_duration arrival)
                       ''Arrivee a Heathrow'' ''Heathrow Airport''
                       ''Formalites et recuperation des valises.'' ''transport'';
              t1 = current_time + default_duration arrival;
              travel_duration = estimate_travel_minutes ''Heathrow Airport'' HOTEL_NAME;
              seg2 = mk_segment t1 (t1 + travel_duration) ''Vers l'hotel''
                       ''Heathrow Airport -> citizenM London Bankside''
                       (friendly_transfer_detail ''Heathrow Airport'' HOTEL_NAME travel_duration)
                       ''transfer'';
              t2 = t1 + travel_duration
          in (case LOCATION_MAP HOTEL_NAME of
                None \<Rightarrow> Inl KeyError
              | Some hotel_info \<Rightarrow>
                  let checkin_duration = max 45 (default_duration hotel_info);
                      seg3 = mk_segment t2 (t2 + checkin_duration) ''Installation a l'hotel''
                               HOTEL_NAME (describe_location HOTEL_NAME) ''visit''
                  in Inr (t2 + checkin_duration, HOTEL_NAME, [seg1, seg2, seg3])))"

text \<open>The loop over \<^verbatim>\<open>visits_order\<close>. \<^verbatim>\<open>break\<close> returns the state as it is,
  \<^verbatim>\<open>continue\<close> goes on with the rest of the list.\<close>

fun visit_loop :: "int \<Rightarrow> string list \<Rightarrow> sched \<Rightarrow> sched" where
  "visit_loop end_time [] st = st"
| "visit_loop end_time (next_loc # rest) (current_time, previous, segments) =
     (case LOCATION_MAP next_loc of
        None \<Rightarrow> visit_loop end_time rest (current_time, previous, segments)
      | Some loc_info \<Rightarrow>
          let travel_duration = estimate_travel_minutes previous next_loc
          in if current_time + travel_duration > end_time
             then (current_time, previous, segments)
             else
               let segments1 =
                     (if travel_duration \<noteq> 0
                      then segments @
                        [mk_segment current_time (current_time + travel_duration)
                           (''Trajet vers '' @ next_loc) (previous @ '' -> '' @ next_loc)
                           (friendly_transfer_detail previous next_loc travel_duration)
                           ''transfer'']
                      else segments);
                   t1 = (if travel_duration \<noteq> 0 then current_time + travel_duration
                         else current_time);
                   d0 = (if category loc_info = ''food''
                         then max 75 (default_duration loc_info)
                         else max 45 (default_duration loc_info));
                   visit_duration = (if t1 + d0 > end_time then max 30 (end_time - t1) else d0)
               in if visit_duration \<le> 0
                  then visit_loop end_time rest (t1, previous, segments1)
                  else visit_loop end_time rest
                         (t1 + visit_duration, next_loc,
                          segments1 @
                            [mk_segment t1 (t1 + visit_duration) next_loc next_loc
                               (describe_location next_loc)
                               (if category loc_info = ''food'' then ''meal'' else ''visit'')]))"

text \<open>After the visits of a day that is not the departure: back to the hotel, and a
  closing buffer when time remains.\<close>

definition evening_block :: "int \<Rightarrow> sched \<Rightarrow> sched" where
  "evening_block end_time st =
     (case st of (current_time, previous, segments) \<Rightarrow>
        if previous \<noteq> HOTEL_NAME then
          let travel_duration = estimate_travel_minutes previous HOTEL_NAME;
              segments1 = segments @
                [mk_segment current_time (current_time + travel_duration) ''Retour a l'hotel''
                   (previous @ '' -> '' @ HOTEL_NAME)
                   (friendly_transfer_detail previous HOTEL_NAME travel_duration) ''transfer''];
              t1 = current_time + travel_duration
          in if t1 < end_time
             then (t1, previous,
                   segments1 @
                     [mk_segment t1 end_time ''Fin de soiree detendue'' HOTEL_NAME
                        ''Temps libre pour un verre ou repos.'' ''buffer''])
             else (t1, previous, segments1)
        else st)"

text \<open>After the visits of the departure day: back to the hotel, to the airport, and the
  formalities.\<close>

definition departure_block :: "sched \<Rightarrow> sched" where
  "departure_block st =
     (case st of (current_time, previous, segments) \<Rightarrow>
        let segments1 =
              (if previous \<noteq> HOTEL_NAME
               then segments @
                 [mk_segment current_time
                    (current_time + estimate_travel_minutes previous HOTEL_NAME)
                    ''Retour a l'hotel'' (previous @ '' -> '' @ HOTEL_NAME)
                    (friendly_transfer_detail previous HOTEL_NAME
                       (estimate_travel_minutes previous HOTEL_NAME)) ''transfer'']
               else segments);
            t1 = (if previous \<noteq> HOTEL_NAME
                  then current_time + estimate_travel_minutes previous HOTEL_NAME
                  else current_time);
            transfer = estimate_travel_minutes HOTEL_NAME ''Heathrow Airport'';
            t2 = t1 + transfer
        in (t2, previous,
            segments1 @
              [mk_segment t1 (t1 + transfer) ''Transfert vers Heathrow''
                 (HOTEL_NAME @ '' -> Heathrow Airport'')
                 (friendly_transfer_detail HOTEL_NAME ''Heathrow Airport'' transfer) ''transfer'',
               mk_segment t2 (t2 + 45) ''Formalites de depart'' ''Heathrow Airport''
                 ''Enregistrement et controle securite.'' ''transport'']))"

definition build_day_schedule :: "DaySection \<Rightarrow> error + Segment list" where
  "build_day_schedule day =
     (case get_day_time_bounds day of
        Inl e \<Rightarrow> Inl e
      | Inr (start_time, end_time) \<Rightarrow>
          let poi_locations = drop_shard (poi_filter (locations day));
              visits_order = visits_order_of (theme day) poi_locations
          in (case (if theme day = ''arrival'' then arrival_block start_time
                    else Inr (start_time, HOTEL_NAME, [])) of
                Inl e \<Rightarrow> Inl e
              | Inr st0 \<Rightarrow>
                  let st1 = visit_loop end_time visits_order st0;
                      st2 = (if theme day \<noteq> ''departure'' then evening_block end_time st1
                             else st1);
                      st3 = (if theme day = ''departure'' then departure_block st2 else st2)
                  in Inr (snd (snd st3))))"

section \<open>Deduplication across days\<close>

definition DEDUP_WHITELIST :: "string set" where
  "DEDUP_WHITELIST =
     {HOTEL_NAME, ''Heathrow Airport'', ''Paddington Station'', ''Southwark Station'',
      ''South Bank Promenade'', ''Bankside Pier'', ''Westminster Pier''}"

text \<open>
  \<^verbatim>\<open>compute_centroid\<close>: the mean of the coordinates of the names the catalog knows, and
  the hotel's coordinates when there is none.
\<close>

fun centroid_sums :: "string list \<Rightarrow> real \<times> real \<times> nat \<Rightarrow> real \<times> real \<times> nat" where
  "centroid_sums [] acc = acc"
| "centroid_sums (n # ns) (lat_sum, lon_sum, cnt) =
     (case LOCATION_MAP n of
        None \<Rightarrow> centroid_sums ns (lat_sum, lon_sum, cnt)
      | Some info \<Rightarrow> centroid_sums ns (lat_sum + lat info, lon_sum + lon info, Suc cnt))"

definition compute_centroid :: "string list \<Rightarrow> error + (real \<times> real)" where
  "compute_centroid location_names =
     (case centroid_sums location_names (0, 0, 0) of
        (lat_sum, lon_sum, cnt) \<Rightarrow>
          if cnt = 0 then
            (case LOCATION_MAP HOTEL_NAME of
               None \<Rightarrow> Inl KeyError
             | Some hotel \<Rightarrow> Inr (lat hotel, lon hotel))
          else Inr (lat_sum / real cnt, lon_sum / real cnt))"

text \<open>\<^verbatim>\<open>index_by_loc.setdefault(name, []).append(day.index)\<close> on a dict that keeps the
  order in which its keys were inserted.\<close>

fun setdefault_append :: "(string \<times> int list) list \<Rightarrow> string \<Rightarrow> int \<Rightarrow> (string \<times> int list) list" where
  "setdefault_append [] n i = [(n, [i])]"
| "setdefault_append ((k, is) # rest) n i =
     (if k = n then (k, is @ [i]) # rest else (k, is) # setdefault_append rest n i)"

definition index_by_loc_of :: "DaySection list \<Rightarrow> (string \<times> int list) list" where
  "index_by_loc_of days =
     foldl (\<lambda>acc day. foldl (\<lambda>acc' n. setdefault_append acc' n (index day)) acc (locations day))
       [] days"

text \<open>The dict \<^verbatim>\<open>centroids\<close>, keyed by \<^verbatim>\<open>day.index\<close>; a later day with the same index
  replaces an earlier one, as \<open>dict_get\<close> reads it.\<close>

fun centroids_of :: "DaySection list \<Rightarrow> error + (int \<times> (real \<times> real)) list" where
  "centroids_of [] = Inr []"
| "centroids_of (day # days) =
     (case compute_centroid (if locations day = [] then [HOTEL_NAME] else locations day) of
        Inl e \<Rightarrow> Inl e
      | Inr c \<Rightarrow>
         (case centroids_of days of
            Inl e \<Rightarrow> Inl e
          | Inr cs \<Rightarrow> Inr ((index day, c) # cs)))"

text \<open>\<^verbatim>\<open>min(indices, key=lambda idx: distance_between(name, centroids[idx]))\<close>: the first
  index whose key is minimal. \<^verbatim>\<open>centroids[idx]\<close> raises \<^verbatim>\<open>KeyError\<close> on a missing
  index, \<^verbatim>\<open>min\<close> raises \<^verbatim>\<open>ValueError\<close> on an empty list.\<close>

definition centroid_key ::
  "(int \<times> (real \<times> real)) list \<Rightarrow> string \<Rightarrow> int \<Rightarrow> error + real option" where
  "centroid_key centroids n idx =
     (case dict_get centroids idx of
        None \<Rightarrow> Inl KeyError
      | Some c \<Rightarrow> Inr (distance_between n c))"

fun min_loop :: "(int \<Rightarrow> error + real option) \<Rightarrow> int list \<Rightarrow> int \<times> real option \<Rightarrow> error + int" where
  "min_loop key [] (best, kb) = Inr best"
| "min_loop key (i # is) (best, kb) =
     (case key i of
        Inl e \<Rightarrow> Inl e
      | Inr k \<Rightarrow> if dist_less k kb then min_loop key is (i, k) else min_loop key is (best, kb))"

fun min_index :: "(int \<Rightarrow> error + real option) \<Rightarrow> int list \<Rightarrow> error + int" where
  "min_index key [] = Inl (ValueError ''min() arg is an empty sequence'')"
| "min_index key (i # is) =
     (case key i of
        Inl e \<Rightarrow> Inl e
      | Inr k \<Rightarrow> min_loop key is (i, k))"

text \<open>\<^verbatim>\<open>days[idx]\<close>: a negative index counts from the end, an index out of range raises
  \<^verbatim>\<open>IndexError\<close>. \<open>py_pos\<close> is the position that the index denotes.\<close>

definition py_pos :: "'a list \<Rightarrow> int \<Rightarrow> error + nat" where
  "py_pos xs i =
     (if 0 \<le> i \<and> i < int (length xs) then Inr (nat i)
      else if i < 0 \<and> - int (length xs) \<le> i then Inr (nat (int (length xs) + i))
      else Inl IndexError)"

text \<open>The inner loop over \<^verbatim>\<open>indices\<close>. The day object is changed in place: the list
  holds the changed day at the same position.\<close>

fun strip_loop :: "string \<Rightarrow> int \<Rightarrow> int list \<Rightarrow> DaySection list \<Rightarrow> error + DaySection list" where
  "strip_loop n best_index [] days = Inr days"
| "strip_loop n best_index (idx # rest) days =
     (if idx = best_index then strip_loop n best_index rest days
      else case py_pos days idx of
        Inl e \<Rightarrow> Inl e
      | Inr j \<Rightarrow>
          let day = days ! j
          in if n = HOTEL_NAME \<and> theme day = ''arrival'' then strip_loop n best_index rest days
             else if n \<in> set (locations day)
             then strip_loop n best_index rest
                    (days[j := day\<lparr>locations := remove1 n (locations day),
                                  removed_duplicates := removed_duplicates day @ [n]\<rparr>])
             else strip_loop n best_index rest days)"

text \<open>The gate of the outer loop: a name is left alone unless it is whitelisted or its
  category is transport or hotel.\<close>

definition dedup_applies :: "string \<Rightarrow> bool" where
  "dedup_applies n \<longleftrightarrow>
     \<not> (n \<notin> DEDUP_WHITELIST \<and>
        (case LOCATION_MAP n of
           None \<Rightarrow> True
         | Some loc_info \<Rightarrow> category loc_info \<notin> {''transport'', ''hotel''}))"

fun merge_loop ::
  "(int \<times> (real \<times> real)) list \<Rightarrow> (string \<times> int list) list \<Rightarrow> DaySection list \<Rightarrow>
   error + DaySection list" where
  "merge_loop centroids [] days = Inr days"
| "merge_loop centroids ((n, indices) # rest) days =
     (if length indices \<le> 1 then merge_loop centroids rest days
      else if \<not> dedup_applies n then merge_loop centroids rest days
      else case min_index (centroid_key centroids n) indices of
        Inl e \<Rightarrow> Inl e
      | Inr best_index \<Rightarrow>
         (case strip_loop n best_index indices days of
            Inl e \<Rightarrow> Inl e
          | Inr days' \<Rightarrow> merge_loop centroids rest days'))"

definition merge_duplicate_locations :: "DaySection list \<Rightarrow> error + DaySection list" where
  "merge_duplicate_locations days =
     (case centroids_of days of
        Inl e \<Rightarrow> Inl e
      | Inr centroids \<Rightarrow> merge_loop centroids (index_by_loc_of days) days)"


section \<open>Predicates of the properties\<close>

text \<open>A segment list is contiguous when each segment ends where the next one starts.\<close>

definition contiguous :: "Segment list \<Rightarrow> bool" where
  "contiguous segs \<longleftrightarrow> (\<forall>i. Suc i < length segs \<longrightarrow> end' (segs ! i) = start (segs ! Suc i))"

text \<open>The invariant of the scheduler's clock: the segments are contiguous, none ends
  before it starts, and the last one ends at the current time.\<close>

definition chain :: "int \<Rightarrow> Segment list \<Rightarrow> bool" where
  "chain t segs \<longleftrightarrow>
     contiguous segs \<and> (\<forall>s\<in>set segs. start s \<le> end' s) \<and> (segs \<noteq> [] \<longrightarrow> end' (last segs) = t)"

text \<open>What the visit loop appends: a transfer that ends within the bound \<open>e\<close>, or the
  visit of one of the names \<open>V\<close>, known to the catalog, which starts within the bound
  and ends within it unless it is clamped to 30 minutes.\<close>

definition loop_seg :: "int \<Rightarrow> string set \<Rightarrow> Segment \<Rightarrow> bool" where
  "loop_seg e V s \<longleftrightarrow>
     (segment_type s = ''transfer'' \<and> end' s \<le> e \<and> (\<exists>n. title s = ''Trajet vers '' @ n)) \<or>
     (\<exists>info. location s \<in> V \<and> title s = location s \<and> LOCATION_MAP (location s) = Some info \<and>
        segment_type s = (if category info = ''food'' then ''meal'' else ''visit'') \<and>
        start s \<le> e \<and> (end' s \<le> e \<or> end' s = start s + 30))"

text \<open>The titles of the segments that the scheduler appends without looking at the end
  bound: the arrival block, the return to the hotel and the departure block.\<close>

definition unchecked_titles :: "string set" where
  "unchecked_titles =
     {''Arrivee a Heathrow'', ''Vers l'hotel'', ''Installation a l'hotel'', ''Retour a l'hotel'',
      ''Transfert vers Heathrow'', ''Formalites de depart''}"

text \<open>The words of the specification: a string contains a substring of the form
  \<^verbatim>\<open>H[H]hMM\<close>, one or two digits, the letter h, two digits.\<close>

fun is_HhMM :: "string \<Rightarrow> bool" where
  "is_HhMM [a, h, c, d] \<longleftrightarrow> is_digit a \<and> h = CHR ''h'' \<and> is_digit c \<and> is_digit d"
| "is_HhMM [a, b, h, c, d] \<longleftrightarrow>
     is_digit a \<and> is_digit b \<and> h = CHR ''h'' \<and> is_digit c \<and> is_digit d"
| "is_HhMM _ \<longleftrightarrow> False"

definition has_time_substring :: "string \<Rightarrow> bool" where
  "has_time_substring s \<longleftrightarrow> (\<exists>pre mid post. s = pre @ mid @ post \<and> is_HhMM mid)"

section \<open>Example days\<close>

definition mk_day :: "int \<Rightarrow> string \<Rightarrow> string list \<Rightarrow> string list \<Rightarrow> DaySection" where
  "mk_day i th time_strs locs =
     \<lparr>index = i, day_title = [], theme = th, lines = [],
      timeline = map (\<lambda>t. \<lparr>time = t, activity = [], item_details = []\<rparr>) time_strs,
      locations = locs, removed_duplicates = [], added_essentials = []\<rparr>"

text \<open>An arrival day with one stop, and the schedule the scheduler builds for it.\<close>

definition arrival_day :: DaySection where
  "arrival_day = mk_day 0 ''arrival'' [] [''Borough Market'']"

definition arrival_day_schedule :: "Segment list" where
  "arrival_day_schedule =
     [mk_segment 900 930 ''Arrivee a Heathrow'' ''Heathrow Airport''
        ''Formalites et recuperation des valises.'' ''transport'',
      mk_segment 930 1005 ''Vers l'hotel'' ''Heathrow Airport -> citizenM London Bankside''
        ''Heathrow Express jusqu'a Paddington puis taxi/metro (75 min).'' ''transfer'',
      mk_segment 1005 1050 ''Installation a l'hotel'' ''citizenM London Bankside''
        ''Check-in et petite pause pour poser les valises.'' ''visit'',
      mk_segment 1050 1058 ''Trajet vers Borough Market''
        ''citizenM London Bankside -> Borough Market''
        ''Petite marche ou trajet rapide (<= 15 min).'' ''transfer'',
      mk_segment 1058 1133 ''Borough Market'' ''Borough Market''
        ''Marche gourmet aux stands de Noel pour grignoter local.'' ''meal'',
      mk_segment 1133 1141 ''Retour a l'hotel'' ''Borough Market -> citizenM London Bankside''
        ''Petite marche ou trajet rapide (<= 15 min).'' ''transfer'',
      mk_segment 1141 1380 ''Fin de soiree detendue'' ''citizenM London Bankside''
        ''Temps libre pour un verre ou repos.'' ''buffer'']"

text \<open>A day that lists both The Shard and the restaurant in it.\<close>

definition dinner_day :: DaySection where
  "dinner_day = mk_day 1 ''mayfair'' []
     [''Borough Market'', ''The Shard'', ''Oblix at The Shard'', ''Hawksmoor Borough'']"

definition dinner_day_schedule :: "Segment list" where
  "dinner_day_schedule =
     [mk_segment 570 578 ''Trajet vers Borough Market''
        ''citizenM London Bankside -> Borough Market''
        ''Petite marche ou trajet rapide (<= 15 min).'' ''transfer'',
      mk_segment 578 653 ''Borough Market'' ''Borough Market''
        ''Marche gourmet aux stands de Noel pour grignoter local.'' ''meal'',
      mk_segment 653 661 ''Trajet vers Oblix at The Shard''
        ''Borough Market -> Oblix at The Shard''
        ''Petite marche ou trajet rapide (<= 15 min).'' ''transfer'',
      mk_segment 661 781 ''Oblix at The Shard'' ''Oblix at The Shard''
        ''Diner panoramique avec vue sur toute la ville.'' ''meal'',
      mk_segment 781 789 ''Trajet vers Hawksmoor Borough''
        ''Oblix at The Shard -> Hawksmoor Borough''
        ''Petite marche ou trajet rapide (<= 15 min).'' ''transfer'',
      mk_segment 789 879 ''Hawksmoor Borough'' ''Hawksmoor Borough''
        ''Pause gourmande en douceur.'' ''meal'',
      mk_segment 879 887 ''Retour a l'hotel'' ''Hawksmoor Borough -> citizenM London Bankside''
        ''Petite marche ou trajet rapide (<= 15 min).'' ''transfer'',
      mk_segment 887 1320 ''Fin de soiree detendue'' ''citizenM London Bankside''
        ''Temps libre pour un verre ou repos.'' ''buffer'']"

text \<open>A day that lists a pier and the hotel beside a market.\<close>

definition pier_day :: DaySection where
  "pier_day = mk_day 2 ''mayfair'' []
     [''Westminster Pier'', ''citizenM London Bankside'', ''Borough Market'']"

definition pier_day_schedule :: "Segment list" where
  "pier_day_schedule =
     [mk_segment 570 578 ''Trajet vers Borough Market''
        ''citizenM London Bankside -> Borough Market''
        ''Petite marche ou trajet rapide (<= 15 min).'' ''transfer'',
      mk_segment 578 653 ''Borough Market'' ''Borough Market''
        ''Marche gourmet aux stands de Noel pour grignoter local.'' ''meal'',
      mk_segment 653 661 ''Retour a l'hotel'' ''Borough Market -> citizenM London Bankside''
        ''Petite marche ou trajet rapide (<= 15 min).'' ''transfer'',
      mk_segment 661 1320 ''Fin de soiree detendue'' ''citizenM London Bankside''
        ''Temps libre pour un verre ou repos.'' ''buffer'']"

text \<open>A day whose timeline leaves 100 minutes, from 9:00 to 10:40.\<close>

definition short_day :: DaySection where
  "short_day = mk_day 1 ''mayfair'' [''9h00-10h40''] [''Borough Market'', ''Hawksmoor Borough'']"

definition short_day_schedule :: "Segment list" where
  "short_day_schedule =
     [mk_segment 540 548 ''Trajet vers Borough Market''
        ''citizenM London Bankside -> Borough Market''
        ''Petite marche ou trajet rapide (<= 15 min).'' ''transfer'',
      mk_segment 548 623 ''Borough Market'' ''Borough Market''
        ''Marche gourmet aux stands de Noel pour grignoter local.'' ''meal'',
      mk_segment 623 631 ''Trajet vers Hawksmoor Borough'' ''Borough Market -> Hawksmoor Borough''
        ''Petite marche ou trajet rapide (<= 15 min).'' ''transfer'',
      mk_segment 631 661 ''Hawksmoor Borough'' ''Hawksmoor Borough''
        ''Pause gourmande en douceur.'' ''meal'',
      mk_segment 661 669 ''Retour a l'hotel'' ''Hawksmoor Borough -> citizenM London Bankside''
        ''Petite marche ou trajet rapide (<= 15 min).'' ''transfer'']"

text \<open>A departure day with a coffee stop, and one whose timeline starts at 11:30.\<close>

definition departure_day :: DaySection where
  "departure_day = mk_day 3 ''departure'' []
     [''The Gentlemen Baristas Bankside'', ''citizenM London Bankside'']"

definition departure_day_schedule :: "Segment list" where
  "departure_day_schedule =
     [mk_segment 420 428 ''Trajet vers The Gentlemen Baristas Bankside''
        ''citizenM London Bankside -> The Gentlemen Baristas Bankside''
        ''Petite marche ou trajet rapide (<= 15 min).'' ''transfer'',
      mk_segment 428 503 ''The Gentlemen Baristas Bankside'' ''The Gentlemen Baristas Bankside''
        ''Pause gourmande en douceur.'' ''meal'',
      mk_segment 503 511 ''Retour a l'hotel''
        ''The Gentlemen Baristas Bankside -> citizenM London Bankside''
        ''Petite marche ou trajet rapide (<= 15 min).'' ''transfer'',
      mk_segment 511 586 ''Transfert vers Heathrow'' ''citizenM London Bankside -> Heathrow Airport''
        ''Heathrow Express jusqu'a Paddington puis taxi/metro (75 min).'' ''transfer'',
      mk_segment 586 631 ''Formalites de depart'' ''Heathrow Airport''
        ''Enregistrement et controle securite.'' ''transport'']"

definition late_departure_day :: DaySection where
  "late_departure_day = mk_day 3 ''departure'' [''11h30''] []"

definition late_departure_schedule :: "Segment list" where
  "late_departure_schedule =
     [mk_segment 690 765 ''Transfert vers Heathrow'' ''citizenM London Bankside -> Heathrow Airport''
        ''Heathrow Express jusqu'a Paddington puis taxi/metro (75 min).'' ''transfer'',
      mk_segment 765 810 ''Formalites de depart'' ''Heathrow Airport''
        ''Enregistrement et controle securite.'' ''transport'']"


section \<open>Predicates of the deduplication\<close>

text \<open>The parser numbers the days by their position.\<close>

definition indexed_by_position :: "DaySection list \<Rightarrow> bool" where
  "indexed_by_position days \<longleftrightarrow> (\<forall>i<length days. index (days ! i) = int i)"

text \<open>The (name, index) pairs in the order in which the first loop meets them, and
  the indices recorded for one name.\<close>

definition loc_pairs :: "DaySection list \<Rightarrow> (string \<times> int) list" where
  "loc_pairs days = concat (map (\<lambda>d. map (\<lambda>n. (n, index d)) (locations d)) days)"

definition occurrences :: "DaySection list \<Rightarrow> string \<Rightarrow> int list" where
  "occurrences days n = map snd (filter (\<lambda>p. fst p = n) (loc_pairs days))"

text \<open>The first loop as one fold over the pairs.\<close>

definition fill :: "(string \<times> int list) list \<Rightarrow> (string \<times> int) list \<Rightarrow> (string \<times> int list) list" where
  "fill al ps = foldl (\<lambda>acc p. setdefault_append acc (fst p) (snd p)) al ps"

text \<open>What the inner loop does to the days when it strips the name \<open>n\<close> with the
  winning index \<open>b\<close>: lengths, indices and themes stay, other names stay, and a day that
  is neither the winner nor an arrival day holding the hotel loses one occurrence of \<open>n\<close>
  for each of its entries in \<open>is\<close>.\<close>

definition strip_relates ::
  "string \<Rightarrow> int \<Rightarrow> int list \<Rightarrow> DaySection list \<Rightarrow> DaySection list \<Rightarrow> bool" where
  "strip_relates n b is days days' \<longleftrightarrow>
     length days' = length days \<and>
     (\<forall>i<length days.
        index (days' ! i) = index (days ! i) \<and> theme (days' ! i) = theme (days ! i) \<and>
        (\<forall>m. m \<noteq> n \<longrightarrow> count_list (locations (days' ! i)) m = count_list (locations (days ! i)) m) \<and>
        count_list (locations (days' ! i)) n =
          (if int i = b \<or> (n = HOTEL_NAME \<and> theme (days ! i) = ''arrival'')
           then count_list (locations (days ! i)) n
           else count_list (locations (days ! i)) n - count_list is (int i)))"

text \<open>The recorded indices fit the days: each is a position of the list and a key of
  the centroids, and a day's position is recorded once for each occurrence of the name on
  that day.\<close>

definition consistent ::
  "(string \<times> int list) list \<Rightarrow> DaySection list \<Rightarrow> (int \<times> (real \<times> real)) list \<Rightarrow> bool" where
  "consistent al days cs \<longleftrightarrow>
     (\<forall>(k, is)\<in>set al.
        (\<forall>idx\<in>set is. 0 \<le> idx \<and> idx < int (length days) \<and> dict_get cs idx \<noteq> None) \<and>
        (\<forall>i<length days. count_list is (int i) = count_list (locations (days ! i)) k))"

text \<open>What the outer loop does to the days: lengths, indices and themes stay, no
  occurrence is added, the names that are not recorded or do not pass the gate stay as
  they are, and each recorded name that passes the gate is left on one position only,
  arrival days holding the hotel apart; that position is the index that \<^verbatim>\<open>min\<close> picks
  when the name is recorded more than once.\<close>

definition merge_relates ::
  "(int \<times> (real \<times> real)) list \<Rightarrow> (string \<times> int list) list \<Rightarrow>
   DaySection list \<Rightarrow> DaySection list \<Rightarrow> bool" where
  "merge_relates cs al days days' \<longleftrightarrow>
     length days' = length days \<and>
     (\<forall>i<length days.
        index (days' ! i) = index (days ! i) \<and> theme (days' ! i) = theme (days ! i) \<and>
        (\<forall>k. count_list (locations (days' ! i)) k \<le> count_list (locations (days ! i)) k)) \<and>
     (\<forall>k. k \<notin> fst ` set al \<or> \<not> dedup_applies k \<longrightarrow>
        (\<forall>i<length days. count_list (locations (days' ! i)) k = count_list (locations (days ! i)) k)) \<and>
     (\<forall>(k, is)\<in>set al. dedup_applies k \<longrightarrow>
        (\<exists>b. (1 < length is \<longrightarrow> min_index (centroid_key cs k) is = Inr b) \<and>
             (\<forall>i<length days. k \<in> set (locations (days' ! i)) \<longrightarrow>
                int i = b \<or> (k = HOTEL_NAME \<and> theme (days ! i) = ''arrival''))))"

text \<open>The day that a run of the deduplication picks for the hotel: the index that
  \<^verbatim>\<open>min\<close> returns on the indices recorded for the hotel, with the centroids of the days
  as they are handed to the run.\<close>

definition hotel_winner :: "DaySection list \<Rightarrow> int option" where
  "hotel_winner days =
     (case centroids_of days of
        Inl e \<Rightarrow> None
      | Inr cs \<Rightarrow>
         (case min_index (centroid_key cs HOTEL_NAME) (occurrences days HOTEL_NAME) of
            Inl e \<Rightarrow> None
          | Inr b \<Rightarrow> Some b))"

text \<open>A run has nothing to take the hotel from: the hotel is recorded at most once, or
  every day that lists it and is not an arrival day is the day that the run picks.\<close>

definition hotel_settled :: "DaySection list \<Rightarrow> bool" where
  "hotel_settled days \<longleftrightarrow>
     length (occurrences days HOTEL_NAME) \<le> 1 \<or>
     (\<forall>i<length days.
        HOTEL_NAME \<in> set (locations (days ! i)) \<and> theme (days ! i) \<noteq> ''arrival'' \<longrightarrow>
        hotel_winner days = Some (int i))"

text \<open>Two days that both list a landmark; two days that both list a pier and a
  landmark, before and after the deduplication; three days of which the arrival day lists
  the hotel, before the deduplication, after it, and after a second run; an arrival day
  and a departure day that both list the hotel.\<close>

definition eye_days :: "DaySection list" where
  "eye_days = [mk_day 0 ''mayfair'' [] [''London Eye''], mk_day 1 ''city'' [] [''London Eye'']]"









section \<open>Catalog facts and travel times\<close>

lemma LOCATION_MAP_hotel:
  "\<exists>info. LOCATION_MAP HOTEL_NAME = Some info \<and> category info = ''hotel'' \<and> default_duration info = 30"
  by (simp add: LOCATION_MAP_def dict_get_def LOCATION_LIBRARY_def loc_def HOTEL_NAME_def)

lemma LOCATION_MAP_heathrow:
  "\<exists>info. LOCATION_MAP ''Heathrow Airport'' = Some info \<and> category info = ''transport'' \<and> default_duration info = 30"
  by (simp add: LOCATION_MAP_def dict_get_def LOCATION_LIBRARY_def loc_def)

lemma LOCATION_MAP_oblix:
  "\<exists>info. LOCATION_MAP ''Oblix at The Shard'' = Some info \<and> category info = ''food'' \<and> default_duration info = 120"
  by (simp add: LOCATION_MAP_def dict_get_def LOCATION_LIBRARY_def loc_def)

lemma overrides_positive:
  "dict_get TRANSIT_OVERRIDES k = Some m \<Longrightarrow> 0 < m"
  by (auto simp: dict_get_def TRANSIT_OVERRIDES_def split: if_splits)

lemma estimate_heathrow_hotel:
  "estimate_travel_minutes ''Heathrow Airport'' HOTEL_NAME = 75"
  by (simp add: estimate_travel_minutes_def dict_get_def TRANSIT_OVERRIDES_def HOTEL_NAME_def)

lemma estimate_hotel_heathrow:
  "estimate_travel_minutes HOTEL_NAME ''Heathrow Airport'' = 75"
  by (simp add: estimate_travel_minutes_def dict_get_def TRANSIT_OVERRIDES_def HOTEL_NAME_def)

lemma py_trunc_nonneg: "0 \<le> x \<Longrightarrow> 0 \<le> py_trunc x"
  by (simp add: py_trunc_def)

lemma estimate_travel_minutes_nonneg: "0 \<le> estimate_travel_minutes a b"
proof -
  have far: "0 \<le> py_trunc (999 / 4.5 * 60) + 5"
    by (simp add: py_trunc_def)
  show ?thesis
    unfolding estimate_travel_minutes_def distance_between_pair_def
    using far
    by (auto simp: Let_def split: option.splits dest: overrides_positive)
qed

lemma sin_half_squared: "(sin (x / 2))\<^sup>2 = (1 - cos x) / 2" for x :: real
  using cos_double_sin [of "x / 2"] by simp

lemma abs_product_bound: "\<bar>a * b\<bar> \<le> (a\<^sup>2 + b\<^sup>2) / 2" for a b :: real
  using sum_squares_bound [of "\<bar>a\<bar>" "\<bar>b\<bar>"] by (simp add: abs_mult)

lemma haversine_arg_range:
  fixes p1 p2 l :: real
  defines "h \<equiv> (sin ((p2 - p1) / 2))\<^sup>2 + cos p1 * cos p2 * (sin (l / 2))\<^sup>2"
  shows "0 \<le> h \<and> h \<le> 1"
proof -
  define t where "t = sin p1 * sin p2 + cos p1 * cos p2 * cos l"
  have h: "h = (1 - t) / 2"
    unfolding h_def t_def sin_half_squared cos_diff by (simp add: field_simps)
  have "\<bar>cos p1 * cos p2 * cos l\<bar> = \<bar>cos p1 * cos p2\<bar> * \<bar>cos l\<bar>" by (simp add: abs_mult)
  also have "\<dots> \<le> \<bar>cos p1 * cos p2\<bar> * 1" by (intro mult_left_mono) auto
  finally have c: "\<bar>cos p1 * cos p2 * cos l\<bar> \<le> ((cos p1)\<^sup>2 + (cos p2)\<^sup>2) / 2"
    using abs_product_bound [of "cos p1" "cos p2"] by simp
  have s: "\<bar>sin p1 * sin p2\<bar> \<le> ((sin p1)\<^sup>2 + (sin p2)\<^sup>2) / 2" by (rule abs_product_bound)
  have "\<bar>t\<bar> \<le> \<bar>sin p1 * sin p2\<bar> + \<bar>cos p1 * cos p2 * cos l\<bar>" unfolding t_def by (rule abs_triangle_ineq)
  also have "\<dots> \<le> ((sin p1)\<^sup>2 + (sin p2)\<^sup>2) / 2 + ((cos p1)\<^sup>2 + (cos p2)\<^sup>2) / 2"
    using s c by linarith
  also have "\<dots> = 1"
    by (simp add: sin_squared_eq [of p1] sin_squared_eq [of p2] field_simps)
  finally have "\<bar>t\<bar> \<le> 1" .
  then show ?thesis unfolding h by auto
qed

lemma haversine_km_domain:
  "\<exists>h. 0 \<le> h \<and> h \<le> 1 \<and> haversine_km a b = 6371 * (2 * arcsin (sqrt h))"
proof -
  let ?h = "(sin ((radians (fst b) - radians (fst a)) / 2))\<^sup>2 +
            cos (radians (fst a)) * cos (radians (fst b)) *
            (sin ((radians (snd b) - radians (snd a)) / 2))\<^sup>2"
  have "0 \<le> ?h \<and> ?h \<le> 1" by (rule haversine_arg_range)
  moreover have "haversine_km a b = 6371 * (2 * arcsin (sqrt ?h))"
    by (simp add: haversine_km_def Let_def)
  ultimately show ?thesis by blast
qed

lemma haversine_km_commute: "haversine_km p q = haversine_km q p"
proof -
  have sq: "(sin ((x - y) / 2))\<^sup>2 = (sin ((y - x) / 2))\<^sup>2" for x y :: real
  proof -
    have "(x - y) / 2 = - ((y - x) / 2)" by (simp add: field_simps)
    then have "sin ((x - y) / 2) = - sin ((y - x) / 2)" by (metis sin_minus)
    then show ?thesis by simp
  qed
  show ?thesis
    unfolding haversine_km_def Let_def
    by (simp add: sq [of "radians (fst q)" "radians (fst p)"]
        sq [of "radians (snd q)" "radians (snd p)"] mult.commute)
qed

lemma distance_between_pair_commute:
  "distance_between_pair a b = distance_between_pair b a"
  by (auto simp: distance_between_pair_def haversine_km_commute split: option.splits)

lemma estimate_travel_minutes_commute:
  "dict_get TRANSIT_OVERRIDES (a, b) = None \<Longrightarrow> dict_get TRANSIT_OVERRIDES (b, a) = None \<Longrightarrow>
   estimate_travel_minutes a b = estimate_travel_minutes b a"
  by (auto simp: estimate_travel_minutes_def distance_between_pair_commute [of a b] Let_def
      split: option.splits)

lemma estimate_travel_minutes_same: "estimate_travel_minutes a a = 0"
  by (simp add: estimate_travel_minutes_def)

section \<open>Invariants of the visit loop\<close>

lemma chain_Nil: "chain t []"
  by (simp add: chain_def contiguous_def)

lemma chain_snoc:
  assumes "chain t segs" and "start s = t" and "start s \<le> end' s"
  shows "chain (end' s) (segs @ [s])"
proof -
  have "end' ((segs @ [s]) ! i) = start ((segs @ [s]) ! Suc i)" if "Suc i < length (segs @ [s])" for i
  proof (cases "Suc i < length segs")
    case True
    then show ?thesis using assms(1) by (simp add: chain_def contiguous_def nth_append)
  next
    case False
    with that have i: "Suc i = length segs" by simp
    then have ne: "segs \<noteq> []" by auto
    have "(segs @ [s]) ! i = last segs"
      using i ne by (metis Suc_inject diff_Suc_1 last_conv_nth lessI nth_append)
    moreover have "(segs @ [s]) ! Suc i = s" using i by simp
    ultimately show ?thesis using assms ne by (simp add: chain_def)
  qed
  then have "contiguous (segs @ [s])" unfolding contiguous_def by blast
  then show ?thesis using assms by (auto simp: chain_def)
qed

lemma chain_mk_segment:
  "chain t segs \<Longrightarrow> 0 \<le> d \<Longrightarrow> chain (t + d) (segs @ [mk_segment t (t + d) ti lo de ty])"
  using chain_snoc [of t segs "mk_segment t (t + d) ti lo de ty"]
  by (simp add: mk_segment_def)

lemma visit_loop_chain:
  "chain t segs \<Longrightarrow> visit_loop e vs (t, p, segs) = (t', p', segs') \<Longrightarrow> chain t' segs'"
proof (induction vs arbitrary: t p segs)
  case Nil
  then show ?case by simp
next
  case (Cons n vs)
  show ?case
  proof (cases "LOCATION_MAP n")
    case None
    with Cons show ?thesis by simp
  next
    case (Some info)
    define tr where "tr = estimate_travel_minutes p n"
    have tr0: "0 \<le> tr" by (simp add: tr_def estimate_travel_minutes_nonneg)
    show ?thesis
    proof (cases "t + tr > e")
      case True
      with Cons.prems Some show ?thesis by (simp add: tr_def)
    next
      case False
      define segs1 where "segs1 = (if tr \<noteq> 0 then segs @ [mk_segment t (t + tr)
          (''Trajet vers '' @ n) (p @ '' -> '' @ n) (friendly_transfer_detail p n tr) ''transfer''] else segs)"
      define t1 where "t1 = (if tr \<noteq> 0 then t + tr else t)"
      define d0 where "d0 = (if category info = ''food'' then max 75 (default_duration info)
                         else max 45 (default_duration info))"
      define vd where "vd = (if t1 + d0 > e then max 30 (e - t1) else d0)"
      have c1: "chain t1 segs1"
        using Cons.prems(1) tr0 chain_mk_segment [of t segs tr]
        by (simp add: segs1_def t1_def)
      have vd: "0 < vd" by (auto simp: vd_def d0_def max_def)
      have run: "visit_loop e vs (t1 + vd, n, segs1 @ [mk_segment t1 (t1 + vd) n n
                     (describe_location n) (if category info = ''food'' then ''meal'' else ''visit'')])
                 = (t', p', segs')"
        using Cons.prems(2) Some False vd
        by (simp add: tr_def Let_def segs1_def t1_def d0_def vd_def split: if_splits)
      have "chain (t1 + vd) (segs1 @ [mk_segment t1 (t1 + vd) n n
                     (describe_location n) (if category info = ''food'' then ''meal'' else ''visit'')])"
        using c1 vd chain_mk_segment [of t1 segs1 vd] by simp
      from Cons.IH [OF this run] show ?thesis .
    qed
  qed
qed

lemma loop_seg_mono: "loop_seg e V s \<Longrightarrow> V \<subseteq> W \<Longrightarrow> loop_seg e W s"
  unfolding loop_seg_def by blast

lemma visit_loop_segs:
  "visit_loop e vs (t, p, segs) = (t', p', segs') \<Longrightarrow>
   set segs' \<subseteq> set segs \<union> {s. loop_seg e (set vs) s}"
proof (induction vs arbitrary: t p segs)
  case Nil
  then show ?case by auto
next
  case (Cons n vs)
  have mono: "{s. loop_seg e (set vs) s} \<subseteq> {s. loop_seg e (set (n # vs)) s}"
    using loop_seg_mono [of e "set vs" _ "set (n # vs)"] by auto
  show ?case
  proof (cases "LOCATION_MAP n")
    case None
    with Cons.prems have "visit_loop e vs (t, p, segs) = (t', p', segs')" by simp
    from Cons.IH [OF this] mono show ?thesis by blast
  next
    case (Some info)
    define tr where "tr = estimate_travel_minutes p n"
    show ?thesis
    proof (cases "t + tr > e")
      case True
      with Cons.prems Some show ?thesis by (auto simp: tr_def)
    next
      case False
      define trseg where "trseg = mk_segment t (t + tr)
          (''Trajet vers '' @ n) (p @ '' -> '' @ n) (friendly_transfer_detail p n tr) ''transfer''"
      define segs1 where "segs1 = (if tr \<noteq> 0 then segs @ [trseg] else segs)"
      define t1 where "t1 = (if tr \<noteq> 0 then t + tr else t)"
      define d0 where "d0 = (if category info = ''food'' then max 75 (default_duration info)
                         else max 45 (default_duration info))"
      define vd where "vd = (if t1 + d0 > e then max 30 (e - t1) else d0)"
      define vseg where "vseg = mk_segment t1 (t1 + vd) n n
                     (describe_location n) (if category info = ''food'' then ''meal'' else ''visit'')"
      have t1e: "t1 \<le> e" using False by (auto simp: t1_def)
      have vd: "0 < vd" by (auto simp: vd_def d0_def max_def)
      have tr_ok: "loop_seg e (set (n # vs)) trseg"
        using False by (simp add: loop_seg_def trseg_def mk_segment_def)
      have "t1 + vd \<le> e \<or> vd = 30" by (auto simp: vd_def max_def)
      then have v_ok: "loop_seg e (set (n # vs)) vseg"
        using t1e Some by (auto simp: loop_seg_def vseg_def mk_segment_def)
      have run: "visit_loop e vs (t1 + vd, n, segs1 @ [vseg]) = (t', p', segs')"
        using Cons.prems Some False vd
        by (simp add: tr_def Let_def segs1_def t1_def d0_def vd_def vseg_def trseg_def split: if_splits)
      have "set (segs1 @ [vseg]) \<subseteq> set segs \<union> {s. loop_seg e (set (n # vs)) s}"
        using tr_ok v_ok by (auto simp: segs1_def)
      with Cons.IH [OF run] mono show ?thesis by blast
    qed
  qed
qed

lemma foldl_add_unique_subset:
  "set (foldl (\<lambda>vo n. if P n \<and> n \<notin> set vo then vo @ [n] else vo) acc xs) \<subseteq> set acc \<union> {x \<in> set xs. P x}"
proof (induction xs arbitrary: acc)
  case Nil
  then show ?case by simp
next
  case (Cons a xs)
  show ?case
  proof (cases "P a \<and> a \<notin> set acc")
    case True
    then have "foldl (\<lambda>vo n. if P n \<and> n \<notin> set vo then vo @ [n] else vo) acc (a # xs)
      = foldl (\<lambda>vo n. if P n \<and> n \<notin> set vo then vo @ [n] else vo) (acc @ [a]) xs" by simp
    with Cons.IH [of "acc @ [a]"] True show ?thesis by auto
  next
    case False
    then have "foldl (\<lambda>vo n. if P n \<and> n \<notin> set vo then vo @ [n] else vo) acc (a # xs)
      = foldl (\<lambda>vo n. if P n \<and> n \<notin> set vo then vo @ [n] else vo) acc xs" by auto
    with Cons.IH [of acc] show ?thesis by auto
  qed
qed

lemma visits_order_of_subset:
  "set (visits_order_of th poi) \<subseteq> set poi \<union> {''Oblix at The Shard''}"
proof -
  define preferred where "preferred = (case dict_get PREFERRED_ORDER th of Some p \<Rightarrow> p | None \<Rightarrow> [])"
  define v1 where "v1 = foldl (\<lambda>vo n. if n \<in> set poi \<and> n \<notin> set vo then vo @ [n] else vo) [] preferred"
  define v2 where "v2 = foldl (\<lambda>vo n. if n \<notin> set vo then vo @ [n] else vo) v1 poi"
  have "set v1 \<subseteq> set poi"
    using foldl_add_unique_subset [of "\<lambda>n. n \<in> set poi" "[]" preferred] by (auto simp: v1_def)
  moreover have "set v2 \<subseteq> set v1 \<union> set poi"
    using foldl_add_unique_subset [of "\<lambda>n. True" v1 poi] by (auto simp: v2_def)
  ultimately have "set v2 \<subseteq> set poi" by blast
  then show ?thesis
    by (auto simp: visits_order_of_def Let_def preferred_def [symmetric] v1_def [symmetric] v2_def [symmetric])
qed

lemma drop_shard_subset: "set (drop_shard poi) \<subseteq> set poi"
  by (auto simp: drop_shard_def)

lemma drop_shard_no_shard:
  "''Oblix at The Shard'' \<in> set poi \<Longrightarrow> ''The Shard'' \<in> set poi \<Longrightarrow> ''The Shard'' \<notin> set (drop_shard poi)"
  by (simp add: drop_shard_def)

lemma poi_filter_category:
  "n \<in> set (poi_filter locs) \<Longrightarrow>
   \<exists>info. LOCATION_MAP n = Some info \<and> category info \<noteq> ''transport'' \<and> category info \<noteq> ''hotel''"
  by (auto simp: poi_filter_def split: option.splits)

section \<open>Time ranges and day bounds\<close>

lemma match_time_here_split:
  "match_time_here s = Some (g, rest) \<Longrightarrow> \<exists>mid. s = mid @ rest \<and> is_HhMM mid"
  by (induction s rule: match_time_here.induct) (auto split: if_splits list.splits)

lemma is_HhMM_match: "is_HhMM mid \<Longrightarrow> match_time_here (mid @ post) \<noteq> None"
  by (induction mid rule: is_HhMM.induct) (auto simp: is_digit_def)

lemma is_HhMM_nonempty: "is_HhMM mid \<Longrightarrow> mid \<noteq> []"
  by auto

lemma findall_time_has_substring: "findall_time s \<noteq> [] \<Longrightarrow> has_time_substring s"
proof (induction s rule: findall_time.induct)
  case 1
  then show ?case by simp
next
  case (2 c cs)
  show ?case
  proof (cases "match_time_here (c # cs)")
    case None
    with 2 have "has_time_substring cs" by simp
    then obtain pre mid post where "cs = pre @ mid @ post" "is_HhMM mid"
      unfolding has_time_substring_def by blast
    then have "c # cs = (c # pre) @ mid @ post \<and> is_HhMM mid" by simp
    then show ?thesis unfolding has_time_substring_def by blast
  next
    case (Some r)
    obtain g rest where r: "r = (g, rest)" by (cases r)
    from match_time_here_split [OF Some [unfolded r]]
    obtain mid where "c # cs = [] @ mid @ rest" "is_HhMM mid" by auto
    then show ?thesis unfolding has_time_substring_def by blast
  qed
qed

lemma has_substring_findall_time:
  "is_HhMM mid \<Longrightarrow> findall_time (pre @ mid @ post) \<noteq> []"
proof (induction pre)
  case Nil
  from is_HhMM_nonempty [OF Nil] obtain c cs where m: "mid @ post = c # cs"
    by (cases mid) auto
  from is_HhMM_match [OF Nil, of post] obtain g rest where
    "match_time_here (c # cs) = Some (g, rest)" unfolding m by auto
  then show ?case using m by simp
next
  case (Cons c pre)
  then show ?case by (cases "match_time_here (c # pre @ mid @ post)") auto
qed

lemma findall_time_empty_iff: "findall_time s = [] \<longleftrightarrow> \<not> has_time_substring s"
  using findall_time_has_substring [of s] has_substring_findall_time
  unfolding has_time_substring_def by blast

lemma parse_time_range_error_iff:
  "parse_time_range s = Inl e \<longleftrightarrow>
     \<not> has_time_substring s \<and> e = ValueError (''Format dheure inattendu: '' @ s)"
  by (auto simp: parse_time_range_def replace_dashes_def Let_def findall_time_empty_iff [symmetric]
      split: list.splits)

lemma time_bounds_loop_malformed:
  "item \<in> set items \<Longrightarrow> \<not> has_time_substring (time item) \<Longrightarrow>
   \<exists>msg. time_bounds_loop items acc = Inl (ValueError msg)"
proof (induction items arbitrary: acc)
  case Nil
  then show ?case by simp
next
  case (Cons i items)
  obtain a b where acc: "acc = (a, b)" by (cases acc)
  show ?case
  proof (cases "parse_time_range (time i)")
    case (Inl e)
    then show ?thesis using parse_time_range_error_iff [of "time i" e] by (simp add: acc)
  next
    case (Inr r)
    then have "has_time_substring (time i)"
      using parse_time_range_error_iff [of "time i"] by (cases "has_time_substring (time i)") auto
    with Cons.prems have "item \<in> set items" by auto
    from Cons.IH [OF this Cons.prems(2)] Inr show ?thesis
      by (cases r) (simp add: acc)
  qed
qed

lemma get_day_time_bounds_malformed:
  "item \<in> set (timeline day) \<Longrightarrow> \<not> has_time_substring (time item) \<Longrightarrow>
   \<exists>msg. get_day_time_bounds day = Inl (ValueError msg)"
  using time_bounds_loop_malformed [of item "timeline day" "(None, None)"]
  by (auto simp: get_day_time_bounds_def)

lemma abc_has_no_time: "\<not> has_time_substring ''abc''"
  using findall_time_empty_iff [of "''abc''"] by simp

lemma time_bounds_loop_Some:
  "time_bounds_loop items acc = Inr (a, b) \<Longrightarrow> items \<noteq> [] \<Longrightarrow> a \<noteq> None \<and> b \<noteq> None"
proof (induction items arbitrary: acc)
  case Nil
  then show ?case by simp
next
  case (Cons i items)
  obtain x y where acc: "acc = (x, y)" by (cases acc)
  from Cons.prems(1) obtain sm em where p: "parse_time_range (time i) = Inr (sm, em)"
    by (cases "parse_time_range (time i)") (auto simp: acc)
  show ?case
  proof (cases items)
    case Nil
    with Cons.prems p show ?thesis by (auto simp: acc)
  next
    case (Cons j js)
    with Cons.prems p Cons.IH show ?thesis by (auto simp: acc)
  qed
qed

lemma city_bounds_with_timeline:
  assumes "theme day = ''city''" and "timeline day \<noteq> []"
    and "get_day_time_bounds day = Inr (s, e)"
  shows "1350 \<le> e \<and> e \<le> 1410"
proof -
  from assms(3) obtain a b where l: "time_bounds_loop (timeline day) (None, None) = Inr (a, b)"
    by (cases "time_bounds_loop (timeline day) (None, None)") (auto simp: get_day_time_bounds_def)
  from time_bounds_loop_Some [OF l assms(2)] obtain s0 e0 where "a = Some s0" "b = Some e0" by auto
  with assms(1,3) l show ?thesis
    by (auto simp: get_day_time_bounds_def Let_def split: if_splits)
qed

section \<open>The blocks of the scheduler\<close>

lemma LOCATION_MAP_shard:
  "\<exists>info. LOCATION_MAP ''The Shard'' = Some info \<and> category info = ''landmark''"
  by (simp add: LOCATION_MAP_def dict_get_def LOCATION_LIBRARY_def loc_def)

lemma describe_hotel:
  "describe_location HOTEL_NAME = ''Check-in et petite pause pour poser les valises.''"
  by (simp add: describe_location_def dict_get_def LOCATION_DESCRIPTIONS_def HOTEL_NAME_def)

lemma detail_heathrow_hotel:
  "friendly_transfer_detail ''Heathrow Airport'' HOTEL_NAME d =
     ''Heathrow Express jusqu'a Paddington puis taxi/metro (75 min).''"
  by (simp add: friendly_transfer_detail_def dict_get_def TRANSFER_NOTES_def HOTEL_NAME_def)

lemma detail_hotel_heathrow:
  "friendly_transfer_detail HOTEL_NAME ''Heathrow Airport'' d =
     ''Heathrow Express jusqu'a Paddington puis taxi/metro (75 min).''"
  by (simp add: friendly_transfer_detail_def dict_get_def TRANSFER_NOTES_def HOTEL_NAME_def)

lemma arrival_block_eq:
  "arrival_block t = Inr (t + 150, HOTEL_NAME,
     [mk_segment t (t + 30) ''Arrivee a Heathrow'' ''Heathrow Airport''
        ''Formalites et recuperation des valises.'' ''transport'',
      mk_segment (t + 30) (t + 105) ''Vers l'hotel''
        ''Heathrow Airport -> citizenM London Bankside''
        ''Heathrow Express jusqu'a Paddington puis taxi/metro (75 min).'' ''transfer'',
      mk_segment (t + 105) (t + 150) ''Installation a l'hotel'' HOTEL_NAME
        ''Check-in et petite pause pour poser les valises.'' ''visit''])"
proof -
  obtain a where a: "LOCATION_MAP ''Heathrow Airport'' = Some a" "default_duration a = 30"
    using LOCATION_MAP_heathrow by blast
  obtain h where h: "LOCATION_MAP HOTEL_NAME = Some h" "default_duration h = 30"
    using LOCATION_MAP_hotel by blast
  show ?thesis
    by (simp add: arrival_block_def a h estimate_heathrow_hotel describe_hotel
        detail_heathrow_hotel Let_def add.commute)
qed

lemma visit_loop_extends:
  "visit_loop e vs (t, p, segs) = (t', p', segs') \<Longrightarrow> \<exists>new. segs' = segs @ new"
proof (induction vs arbitrary: t p segs)
  case Nil
  then show ?case by simp
next
  case (Cons n vs)
  show ?case
  proof (cases "LOCATION_MAP n")
    case None
    with Cons show ?thesis by simp
  next
    case (Some info)
    show ?thesis
    proof (cases "t + estimate_travel_minutes p n > e")
      case True
      with Cons.prems Some show ?thesis by simp
    next
      case False
      from Cons.prems Some False obtain t2 p2 mid where
        "visit_loop e vs (t2, p2, segs @ mid) = (t', p', segs')"
        by (auto simp: Let_def split: if_splits)
      from Cons.IH [OF this] show ?thesis by auto
    qed
  qed
qed

lemma evening_block_segs:
  "evening_block e (t, p, segs) = (t', p', segs') \<Longrightarrow>
   \<exists>new. segs' = segs @ new \<and>
     (\<forall>s\<in>set new. (title s = ''Retour a l'hotel'' \<and> segment_type s = ''transfer'') \<or>
        (title s = ''Fin de soiree detendue'' \<and> segment_type s = ''buffer'' \<and> end' s = e))"
  by (auto simp: evening_block_def Let_def mk_segment_def split: if_splits)

lemma departure_block_segs:
  "departure_block (t, p, segs) = (t', p', segs') \<Longrightarrow>
   \<exists>new. segs' = segs @ new \<and>
     (\<forall>s\<in>set new. title s \<in> {''Retour a l'hotel'', ''Transfert vers Heathrow'', ''Formalites de depart''}
        \<and> segment_type s \<in> {''transfer'', ''transport''})"
  by (auto simp: departure_block_def Let_def mk_segment_def split: if_splits)

lemma evening_block_chain:
  "chain t segs \<Longrightarrow> evening_block e (t, p, segs) = (t', p', segs') \<Longrightarrow> \<exists>u. chain u segs'"
proof -
  assume c: "chain t segs" and ev: "evening_block e (t, p, segs) = (t', p', segs')"
  show ?thesis
  proof (cases "p = HOTEL_NAME")
    case True
    with ev c show ?thesis by (auto simp: evening_block_def)
  next
    case False
    define tr where "tr = estimate_travel_minutes p HOTEL_NAME"
    define ret where "ret = mk_segment t (t + tr) ''Retour a l'hotel'' (p @ '' -> '' @ HOTEL_NAME)
                   (friendly_transfer_detail p HOTEL_NAME tr) ''transfer''"
    have c1: "chain (t + tr) (segs @ [ret])"
      using chain_mk_segment [OF c, of tr] estimate_travel_minutes_nonneg [of p HOTEL_NAME]
      by (simp add: tr_def ret_def)
    show ?thesis
    proof (cases "t + tr < e")
      case True
      define buf where "buf = mk_segment (t + tr) e ''Fin de soiree detendue'' HOTEL_NAME
                        ''Temps libre pour un verre ou repos.'' ''buffer''"
      have "chain (end' buf) ((segs @ [ret]) @ [buf])"
        using chain_snoc [OF c1, of buf] True by (simp add: buf_def mk_segment_def)
      moreover have "segs' = (segs @ [ret]) @ [buf]"
        using ev False True by (auto simp: evening_block_def Let_def tr_def ret_def buf_def)
      ultimately show ?thesis by blast
    next
      case nt: False
      have "segs' = segs @ [ret]"
        using ev False nt by (auto simp: evening_block_def Let_def tr_def ret_def)
      with c1 show ?thesis by blast
    qed
  qed
qed

lemma departure_block_chain:
  "chain t segs \<Longrightarrow> departure_block (t, p, segs) = (t', p', segs') \<Longrightarrow> \<exists>u. chain u segs'"
proof -
  assume c: "chain t segs" and dep: "departure_block (t, p, segs) = (t', p', segs')"
  define tr where "tr = estimate_travel_minutes p HOTEL_NAME"
  define segs1 where "segs1 = (if p \<noteq> HOTEL_NAME then segs @ [mk_segment t (t + tr) ''Retour a l'hotel''
        (p @ '' -> '' @ HOTEL_NAME) (friendly_transfer_detail p HOTEL_NAME tr) ''transfer''] else segs)"
  define t1 where "t1 = (if p \<noteq> HOTEL_NAME then t + tr else t)"
  have c1: "chain t1 segs1"
    using chain_mk_segment [OF c, of tr] estimate_travel_minutes_nonneg [of p HOTEL_NAME] c
    by (simp add: tr_def segs1_def t1_def)
  have c2: "chain (t1 + 75) (segs1 @ [mk_segment t1 (t1 + 75) ''Transfert vers Heathrow''
                 (HOTEL_NAME @ '' -> Heathrow Airport'')
                 (friendly_transfer_detail HOTEL_NAME ''Heathrow Airport'' 75) ''transfer''])"
    using chain_mk_segment [OF c1, of 75] by simp
  have c3: "chain (t1 + 75 + 45) ((segs1 @ [mk_segment t1 (t1 + 75) ''Transfert vers Heathrow''
                 (HOTEL_NAME @ '' -> Heathrow Airport'')
                 (friendly_transfer_detail HOTEL_NAME ''Heathrow Airport'' 75) ''transfer'']) @
              [mk_segment (t1 + 75) (t1 + 75 + 45) ''Formalites de depart'' ''Heathrow Airport''
                 ''Enregistrement et controle securite.'' ''transport''])"
    using chain_mk_segment [OF c2, of 45] by simp
  have "segs' = (segs1 @ [mk_segment t1 (t1 + 75) ''Transfert vers Heathrow''
                 (HOTEL_NAME @ '' -> Heathrow Airport'')
                 (friendly_transfer_detail HOTEL_NAME ''Heathrow Airport'' 75) ''transfer'']) @
              [mk_segment (t1 + 75) (t1 + 75 + 45) ''Formalites de depart'' ''Heathrow Airport''
                 ''Enregistrement et controle securite.'' ''transport'']"
    using dep by (auto simp: departure_block_def Let_def estimate_hotel_heathrow tr_def segs1_def t1_def)
  with c3 show ?thesis by blast
qed

lemma arrival_block_chain: "arrival_block t = Inr (t', p, segs) \<Longrightarrow> chain t' segs"
proof -
  assume "arrival_block t = Inr (t', p, segs)"
  then have eq: "t' = t + 150" "segs = [mk_segment t (t + 30) ''Arrivee a Heathrow'' ''Heathrow Airport''
        ''Formalites et recuperation des valises.'' ''transport'',
      mk_segment (t + 30) (t + 105) ''Vers l'hotel''
        ''Heathrow Airport -> citizenM London Bankside''
        ''Heathrow Express jusqu'a Paddington puis taxi/metro (75 min).'' ''transfer'',
      mk_segment (t + 105) (t + 150) ''Installation a l'hotel'' HOTEL_NAME
        ''Check-in et petite pause pour poser les valises.'' ''visit'']"
    by (auto simp: arrival_block_eq)
  have c1: "chain (t + 30) ([] @ [mk_segment t (t + 30) ''Arrivee a Heathrow'' ''Heathrow Airport''
        ''Formalites et recuperation des valises.'' ''transport''])"
    using chain_mk_segment [OF chain_Nil, of 30 t] by simp
  have c2: "chain (t + 30 + 75) (([] @ [mk_segment t (t + 30) ''Arrivee a Heathrow'' ''Heathrow Airport''
        ''Formalites et recuperation des valises.'' ''transport'']) @ [mk_segment (t + 30) (t + 30 + 75) ''Vers l'hotel''
        ''Heathrow Airport -> citizenM London Bankside''
        ''Heathrow Express jusqu'a Paddington puis taxi/metro (75 min).'' ''transfer''])"
    using chain_mk_segment [OF c1, of 75] by simp
  have c3: "chain (t + 30 + 75 + 45) ((([] @ [mk_segment t (t + 30) ''Arrivee a Heathrow'' ''Heathrow Airport''
        ''Formalites et recuperation des valises.'' ''transport'']) @ [mk_segment (t + 30) (t + 30 + 75) ''Vers l'hotel''
        ''Heathrow Airport -> citizenM London Bankside''
        ''Heathrow Express jusqu'a Paddington puis taxi/metro (75 min).'' ''transfer'']) @
        [mk_segment (t + 30 + 75) (t + 30 + 75 + 45) ''Installation a l'hotel'' HOTEL_NAME
        ''Check-in et petite pause pour poser les valises.'' ''visit''])"
    using chain_mk_segment [OF c2, of 45] by simp
  then show ?thesis by (simp add: eq add.commute)
qed

text \<open>The run of the scheduler, step by step.\<close>

lemma build_day_schedule_run:
  assumes "build_day_schedule day = Inr segs"
  obtains s0 e t0 p0 segs0 t1 p1 segs1 t2 p2 where
    "get_day_time_bounds day = Inr (s0, e)"
    "(if theme day = ''arrival'' then arrival_block s0 else Inr (s0, HOTEL_NAME, [])) = Inr (t0, p0, segs0)"
    "visit_loop e (visits_order_of (theme day) (drop_shard (poi_filter (locations day)))) (t0, p0, segs0)
       = (t1, p1, segs1)"
    "(if theme day = ''departure'' then departure_block (t1, p1, segs1)
      else evening_block e (t1, p1, segs1)) = (t2, p2, segs)"
proof -
  from assms obtain s0 e where b: "get_day_time_bounds day = Inr (s0, e)"
    by (cases "get_day_time_bounds day") (auto simp: build_day_schedule_def)
  from assms b obtain st0 where
    st0: "(if theme day = ''arrival'' then arrival_block s0 else Inr (s0, HOTEL_NAME, [])) = Inr st0"
    by (cases "if theme day = ''arrival'' then arrival_block s0 else Inr (s0, HOTEL_NAME, [])")
       (auto simp: build_day_schedule_def Let_def)
  obtain t0 p0 segs0 where s: "st0 = (t0, p0, segs0)" by (cases st0)
  obtain t1 p1 segs1 where l: "visit_loop e (visits_order_of (theme day) (drop_shard (poi_filter (locations day)))) (t0, p0, segs0)
       = (t1, p1, segs1)" by (cases "visit_loop e (visits_order_of (theme day) (drop_shard (poi_filter (locations day)))) (t0, p0, segs0)")
  obtain t2 p2 segs2 where f: "(if theme day = ''departure'' then departure_block (t1, p1, segs1)
      else evening_block e (t1, p1, segs1)) = (t2, p2, segs2)"
    by (cases "if theme day = ''departure'' then departure_block (t1, p1, segs1)
      else evening_block e (t1, p1, segs1)")
  have "segs = segs2"
    using assms b st0 s l f by (auto simp: build_day_schedule_def Let_def split: if_splits)
  with that b st0 s l f show thesis by blast
qed

lemma build_day_schedule_segments:
  assumes "build_day_schedule day = Inr segs" and "get_day_time_bounds day = Inr (s0, e)"
    and "s \<in> set segs"
  shows "loop_seg e (set (visits_order_of (theme day) (drop_shard (poi_filter (locations day))))) s
    \<or> (theme day = ''arrival'' \<and>
        title s \<in> {''Arrivee a Heathrow'', ''Vers l'hotel'', ''Installation a l'hotel''} \<and>
        location s \<in> {''Heathrow Airport'', ''Heathrow Airport -> citizenM London Bankside'',
                        HOTEL_NAME})
    \<or> (title s \<in> {''Retour a l'hotel'', ''Transfert vers Heathrow'', ''Formalites de depart''} \<and>
        segment_type s \<in> {''transfer'', ''transport''})
    \<or> (title s = ''Fin de soiree detendue'' \<and> segment_type s = ''buffer'' \<and> end' s = e)"
proof -
  from assms(1) obtain s0' e' t0 p0 segs0 t1 p1 segs1 t2 p2 where
    b: "get_day_time_bounds day = Inr (s0', e')" and
    a: "(if theme day = ''arrival'' then arrival_block s0' else Inr (s0', HOTEL_NAME, [])) = Inr (t0, p0, segs0)" and
    l: "visit_loop e' (visits_order_of (theme day) (drop_shard (poi_filter (locations day)))) (t0, p0, segs0)
       = (t1, p1, segs1)" and
    f: "(if theme day = ''departure'' then departure_block (t1, p1, segs1)
      else evening_block e' (t1, p1, segs1)) = (t2, p2, segs)"
    by (rule build_day_schedule_run)
  from b assms(2) have e: "e' = e" by simp
  let ?V = "set (visits_order_of (theme day) (drop_shard (poi_filter (locations day))))"
  have s0: "\<forall>x\<in>set segs0. theme day = ''arrival'' \<and>
        title x \<in> {''Arrivee a Heathrow'', ''Vers l'hotel'', ''Installation a l'hotel''} \<and>
        location x \<in> {''Heathrow Airport'', ''Heathrow Airport -> citizenM London Bankside'',
                        HOTEL_NAME}"
    using a by (auto simp: arrival_block_eq mk_segment_def split: if_splits)
  from visit_loop_segs [OF l] have s1: "set segs1 \<subseteq> set segs0 \<union> {x. loop_seg e ?V x}"
    by (simp add: e)
  have "\<exists>new. segs = segs1 @ new \<and>
     (\<forall>x\<in>set new. (title x \<in> {''Retour a l'hotel'', ''Transfert vers Heathrow'', ''Formalites de depart''} \<and>
        segment_type x \<in> {''transfer'', ''transport''}) \<or>
        (title x = ''Fin de soiree detendue'' \<and> segment_type x = ''buffer'' \<and> end' x = e))"
  proof (cases "theme day = ''departure''")
    case True
    with f have "departure_block (t1, p1, segs1) = (t2, p2, segs)" by simp
    from departure_block_segs [OF this] show ?thesis by blast
  next
    case False
    with f have "evening_block e (t1, p1, segs1) = (t2, p2, segs)" by (simp add: e)
    from evening_block_segs [OF this] show ?thesis by blast
  qed
  then obtain new where n: "segs = segs1 @ new"
    "\<forall>x\<in>set new. (title x \<in> {''Retour a l'hotel'', ''Transfert vers Heathrow'', ''Formalites de depart''} \<and>
        segment_type x \<in> {''transfer'', ''transport''}) \<or>
        (title x = ''Fin de soiree detendue'' \<and> segment_type x = ''buffer'' \<and> end' x = e)"
    by blast
  from assms(3) n(1) have "s \<in> set segs0 \<or> loop_seg e ?V s \<or> s \<in> set new"
    using s1 by auto
  then show ?thesis using s0 n(2) by blast
qed

lemma build_day_schedule_chain:
  assumes "build_day_schedule day = Inr segs"
  shows "\<exists>u. chain u segs"
proof -
  from assms obtain s0 e t0 p0 segs0 t1 p1 segs1 t2 p2 where
    a: "(if theme day = ''arrival'' then arrival_block s0 else Inr (s0, HOTEL_NAME, [])) = Inr (t0, p0, segs0)" and
    l: "visit_loop e (visits_order_of (theme day) (drop_shard (poi_filter (locations day)))) (t0, p0, segs0)
       = (t1, p1, segs1)" and
    f: "(if theme day = ''departure'' then departure_block (t1, p1, segs1)
      else evening_block e (t1, p1, segs1)) = (t2, p2, segs)"
    by (rule build_day_schedule_run)
  have "chain t0 segs0"
  proof (cases "theme day = ''arrival''")
    case True
    with a arrival_block_chain show ?thesis by simp
  next
    case False
    with a chain_Nil show ?thesis by auto
  qed
  from visit_loop_chain [OF this l] have c1: "chain t1 segs1" .
  show ?thesis
  proof (cases "theme day = ''departure''")
    case True
    with f departure_block_chain [OF c1] show ?thesis by simp
  next
    case False
    with f evening_block_chain [OF c1] show ?thesis by simp
  qed
qed

lemma build_day_schedule_arrival_prefix:
  assumes "theme day = ''arrival''" and "get_day_time_bounds day = Inr (s0, e)"
  shows "\<exists>rest. build_day_schedule day = Inr (
     [mk_segment s0 (s0 + 30) ''Arrivee a Heathrow'' ''Heathrow Airport''
        ''Formalites et recuperation des valises.'' ''transport'',
      mk_segment (s0 + 30) (s0 + 105) ''Vers l'hotel''
        ''Heathrow Airport -> citizenM London Bankside''
        ''Heathrow Express jusqu'a Paddington puis taxi/metro (75 min).'' ''transfer'',
      mk_segment (s0 + 105) (s0 + 150) ''Installation a l'hotel'' HOTEL_NAME
        ''Check-in et petite pause pour poser les valises.'' ''visit''] @ rest)"
proof -
  let ?A = "[mk_segment s0 (s0 + 30) ''Arrivee a Heathrow'' ''Heathrow Airport''
        ''Formalites et recuperation des valises.'' ''transport'',
      mk_segment (s0 + 30) (s0 + 105) ''Vers l'hotel''
        ''Heathrow Airport -> citizenM London Bankside''
        ''Heathrow Express jusqu'a Paddington puis taxi/metro (75 min).'' ''transfer'',
      mk_segment (s0 + 105) (s0 + 150) ''Installation a l'hotel'' HOTEL_NAME
        ''Check-in et petite pause pour poser les valises.'' ''visit'']"
  let ?vs = "visits_order_of (theme day) (drop_shard (poi_filter (locations day)))"
  obtain t1 p1 segs1 where l: "visit_loop e ?vs (s0 + 150, HOTEL_NAME, ?A) = (t1, p1, segs1)"
    by (cases "visit_loop e ?vs (s0 + 150, HOTEL_NAME, ?A)")
  from visit_loop_extends [OF l] obtain new where n: "segs1 = ?A @ new" by blast
  obtain t2 p2 segs2 where ev: "evening_block e (t1, p1, segs1) = (t2, p2, segs2)"
    by (cases "evening_block e (t1, p1, segs1)")
  from evening_block_segs [OF ev] obtain new2 where n2: "segs2 = segs1 @ new2" by blast
  have "build_day_schedule day = Inr segs2"
    using assms l ev by (simp add: build_day_schedule_def arrival_block_eq Let_def)
  then have "build_day_schedule day = Inr (?A @ (new @ new2))" using n n2 by simp
  then show ?thesis by blast
qed

section \<open>Travel times between neighbouring places\<close>

lemma sin_lower_cubic:
  fixes x :: real
  assumes "0 \<le> x"
  shows "x - x ^ 3 / 6 \<le> sin x"
proof -
  have s: "(\<Sum>m<3. sin_coeff m * x ^ m) = x"
    by (simp add: sin_coeff_def numeral_3_eq_3)
  from Maclaurin_sin_bound [of x 3] have "\<bar>sin x - x\<bar> \<le> inverse (fact 3) * \<bar>x\<bar> ^ 3"
    by (simp only: s)
  moreover have "inverse (fact 3) * \<bar>x\<bar> ^ 3 = x ^ 3 / 6"
    using assms by (simp add: fact_numeral)
  ultimately show ?thesis by linarith
qed

lemma pi_le_318: "pi \<le> 3.18"
proof -
  have "(1/2 :: real) \<le> 0.53 - 0.53 ^ 3 / 6" by (simp add: power3_eq_cube)
  also have "\<dots> \<le> sin 0.53" by (rule sin_lower_cubic) simp
  finally have "(1/2 :: real) \<le> sin 0.53" .
  moreover have "\<bar>0.53 :: real\<bar> \<le> pi / 2" using pi_ge_two by simp
  ultimately have "arcsin (1/2) \<le> 0.53"
    using arcsin_le_iff [of "1/2" "0.53"] by simp
  then show ?thesis by simp
qed

lemma arcsin_small:
  fixes r :: real
  assumes "0 \<le> r" and "r \<le> 1/10"
  shows "arcsin r \<le> 101 / 100 * r"
proof -
  let ?y = "101 / 100 * r"
  have y0: "0 \<le> ?y" using assms by simp
  have "r * r \<le> 1/100" using assms mult_mono [of r "1/10" r "1/10"] by simp
  then have "?y ^ 3 / 6 \<le> r / 100"
    using assms mult_left_mono [of "r * r" "1/100" r] by (simp add: power3_eq_cube field_simps)
  then have "r \<le> ?y - ?y ^ 3 / 6" by simp
  also have "\<dots> \<le> sin ?y" using y0 by (rule sin_lower_cubic)
  finally have "r \<le> sin ?y" .
  moreover have "\<bar>?y\<bar> \<le> pi / 2" using assms pi_ge_two by simp
  moreover have "\<bar>r\<bar> \<le> 1" using assms by simp
  ultimately show ?thesis using arcsin_le_iff [of r ?y] by simp
qed

lemma cos_mid_latitude:
  fixes d :: real
  assumes "45 \<le> d" and "d \<le> 90"
  shows "0 \<le> cos (radians d) \<and> cos (radians d) \<le> sqrt 2 / 2"
proof -
  have lo: "pi / 4 \<le> radians d" using assms by (simp add: radians_def field_simps)
  have hi: "radians d \<le> pi / 2" using assms by (simp add: radians_def field_simps)
  have "0 \<le> cos (radians d)"
    using lo hi by (intro cos_ge_zero) (auto intro: order_trans [of _ "pi / 4"])
  moreover have "cos (radians d) \<le> cos (pi / 4)"
    using lo hi by (intro cos_monotone_0_pi_le) auto
  ultimately show ?thesis by (simp add: cos_45)
qed

lemma sin_sq_le:
  fixes x b :: real
  assumes "\<bar>x\<bar> \<le> b"
  shows "(sin x)\<^sup>2 \<le> b\<^sup>2"
proof -
  have "\<bar>sin x\<bar> \<le> \<bar>b\<bar>" using abs_sin_x_le_abs_x [of x] assms by linarith
  then show ?thesis by (simp add: abs_le_square_iff)
qed

lemma haversine_arg_near:
  assumes lat: "45 \<le> fst p" "fst p \<le> 90" "45 \<le> fst q" "fst q \<le> 90"
    and u: "\<bar>fst q - fst p\<bar> \<le> u" and v: "\<bar>snd q - snd p\<bar> \<le> v"
    and w: "2 * u\<^sup>2 + v\<^sup>2 \<le> 2 * w\<^sup>2" "0 \<le> w" "w \<le> 10"
  obtains h where "haversine_km p q = 6371 * (2 * arcsin (sqrt h))"
    and "(sin ((fst q - fst p) * (pi / 360)))\<^sup>2 \<le> h"
    and "sqrt h \<le> 3.18 / 360 * w" and "sqrt h \<le> 1 / 10"
proof -
  define k :: real where "k = 3.18 / 360"
  define a where "a = (radians (fst q) - radians (fst p)) / 2"
  define b where "b = (radians (snd q) - radians (snd p)) / 2"
  define c where "c = cos (radians (fst p)) * cos (radians (fst q))"
  define h where "h = (sin a)\<^sup>2 + c * (sin b)\<^sup>2"
  define R where "R = k * w"
  have k0: "0 \<le> k" by (simp add: k_def)
  have u0: "0 \<le> u" using u by linarith
  have v0: "0 \<le> v" using v by linarith
  have pk: "pi / 360 \<le> k" using pi_le_318 by (simp add: k_def)
  have a_eq: "a = (fst q - fst p) * (pi / 360)" by (simp add: a_def radians_def field_simps)
  have b_eq: "b = (snd q - snd p) * (pi / 360)" by (simp add: b_def radians_def field_simps)
  have "\<bar>a\<bar> = \<bar>fst q - fst p\<bar> * (pi / 360)" by (simp add: a_eq abs_mult)
  also have "\<dots> \<le> u * k" using u pk u0 by (intro mult_mono) auto
  finally have a: "\<bar>a\<bar> \<le> u * k" .
  have "\<bar>b\<bar> = \<bar>snd q - snd p\<bar> * (pi / 360)" by (simp add: b_eq abs_mult)
  also have "\<dots> \<le> v * k" using v pk v0 by (intro mult_mono) auto
  finally have b: "\<bar>b\<bar> \<le> v * k" .
  have sa: "(sin a)\<^sup>2 \<le> (u * k)\<^sup>2" using a by (rule sin_sq_le)
  have sb: "(sin b)\<^sup>2 \<le> (v * k)\<^sup>2" using b by (rule sin_sq_le)
  have c1: "0 \<le> cos (radians (fst p))" "cos (radians (fst p)) \<le> sqrt 2 / 2"
    using cos_mid_latitude [OF lat(1,2)] by auto
  have c2: "0 \<le> cos (radians (fst q))" "cos (radians (fst q)) \<le> sqrt 2 / 2"
    using cos_mid_latitude [OF lat(3,4)] by auto
  have c0: "0 \<le> c" using c1 c2 by (simp add: c_def)
  have "c \<le> (sqrt 2 / 2) * (sqrt 2 / 2)"
    unfolding c_def using c1 c2 by (intro mult_mono) auto
  then have ch: "c \<le> 1 / 2" by simp
  have low: "(sin a)\<^sup>2 \<le> h" using c0 by (simp add: h_def)
  have "c * (sin b)\<^sup>2 \<le> (1 / 2) * (v * k)\<^sup>2"
    using ch sb c0 by (intro mult_mono) auto
  with sa have "h \<le> (u * k)\<^sup>2 + (1 / 2) * (v * k)\<^sup>2" by (simp add: h_def)
  also have "\<dots> = (k\<^sup>2 / 2) * (2 * u\<^sup>2 + v\<^sup>2)" by (simp add: power_mult_distrib field_simps)
  also have "\<dots> \<le> (k\<^sup>2 / 2) * (2 * w\<^sup>2)" using w(1) by (intro mult_left_mono) auto
  also have "\<dots> = R\<^sup>2" by (simp add: R_def power_mult_distrib)
  finally have hR: "h \<le> R\<^sup>2" .
  have R0: "0 \<le> R" using k0 w(2) by (simp add: R_def)
  have "R \<le> k * 10" unfolding R_def using w(3) k0 by (intro mult_left_mono) auto
  then have R1: "R \<le> 1 / 10" by (simp add: k_def)
  have sq: "sqrt h \<le> R" using R0 hR by (rule real_le_lsqrt)
  have d: "haversine_km p q = 6371 * (2 * arcsin (sqrt h))"
    by (simp add: haversine_km_def Let_def h_def a_def b_def c_def)
  show thesis
  proof (rule that [of h])
    show "haversine_km p q = 6371 * (2 * arcsin (sqrt h))" by (rule d)
    show "(sin ((fst q - fst p) * (pi / 360)))\<^sup>2 \<le> h" using low by (simp add: a_eq)
    show "sqrt h \<le> 3.18 / 360 * w" using sq by (simp add: R_def k_def)
    show "sqrt h \<le> 1 / 10" using sq R1 by linarith
  qed
qed

lemma haversine_km_near:
  assumes lat: "45 \<le> fst p" "fst p \<le> 90" "45 \<le> fst q" "fst q \<le> 90"
    and u: "\<bar>fst q - fst p\<bar> \<le> u" and v: "\<bar>snd q - snd p\<bar> \<le> v"
    and w: "2 * u\<^sup>2 + v\<^sup>2 \<le> 2 * w\<^sup>2" "0 \<le> w" "w \<le> 10"
  shows "0 \<le> haversine_km p q \<and> haversine_km p q \<le> 114 * w"
proof -
  from haversine_arg_near [OF assms] obtain h where
    d: "haversine_km p q = 6371 * (2 * arcsin (sqrt h))"
    and low: "(sin ((fst q - fst p) * (pi / 360)))\<^sup>2 \<le> h"
    and sq: "sqrt h \<le> 3.18 / 360 * w" and sq1: "sqrt h \<le> 1 / 10" by blast
  define R :: real where "R = 3.18 / 360 * w"
  have h0: "0 \<le> h" using low zero_le_power2 [of "sin ((fst q - fst p) * (pi / 360))"] by linarith
  have sq0: "0 \<le> sqrt h" using h0 by simp
  have R0: "0 \<le> R" using w(2) by (simp add: R_def)
  have R1: "R \<le> 1 / 10" using w(3) by (simp add: R_def)
  have sqR: "sqrt h \<le> R" using sq by (simp add: R_def)
  have sq1': "sqrt h \<le> 1" using sq1 by linarith
  have "sqrt h \<in> {0..1}" using sq0 sq1' by (simp only: atLeastAtMost_iff simp_thms)
  then have as0: "0 \<le> arcsin (sqrt h)" by (rule arcsin_nonneg)
  have m1: "- 1 \<le> sqrt h" using sq0 by linarith
  have R1': "R \<le> 1" using R1 by linarith
  have "arcsin (sqrt h) \<le> arcsin R" using m1 sqR R1' by (rule arcsin_le_arcsin)
  also have "\<dots> \<le> 101 / 100 * R" using R0 R1 by (rule arcsin_small)
  finally have as: "arcsin (sqrt h) \<le> 101 / 100 * R" .
  have "6371 * (2 * arcsin (sqrt h)) \<le> 6371 * (2 * (101 / 100 * R))"
    using as by simp
  also have "\<dots> = (6371 * 2 * 101 / 100 * (3.18 / 360)) * w" by (simp add: R_def)
  also have "\<dots> \<le> 114 * w" using w(2) by (intro mult_right_mono) auto
  finally have "haversine_km p q \<le> 114 * w" by (simp add: d)
  moreover have "0 \<le> haversine_km p q" using as0 by (simp add: d)
  ultimately show ?thesis by simp
qed



lemma estimate_travel_minutes_near:
  assumes ne: "a \<noteq> b"
    and ov: "dict_get TRANSIT_OVERRIDES (a, b) = None" "dict_get TRANSIT_OVERRIDES (b, a) = None"
    and la: "LOCATION_MAP a = Some la" and lb: "LOCATION_MAP b = Some lb"
    and sp: "\<not> (category la \<in> walkable \<and> category lb \<in> walkable)"
    and lat: "45 \<le> lat la" "lat la \<le> 90" "45 \<le> lat lb" "lat lb \<le> 90"
    and u: "\<bar>lat lb - lat la\<bar> \<le> u" and v: "\<bar>lon lb - lon la\<bar> \<le> v"
    and w: "2 * u\<^sup>2 + v\<^sup>2 \<le> 2 * w\<^sup>2" "0 \<le> w" "114 * w * 12 < 9"
  shows "estimate_travel_minutes a b = 8"
proof -
  define d where "d = haversine_km (lat la, lon la) (lat lb, lon lb)"
  have w10: "w \<le> 10" using w(3) by simp
  have "0 \<le> d \<and> d \<le> 114 * w"
    unfolding d_def using lat u v w(1,2) w10 by (intro haversine_km_near) auto
  then have d0: "0 \<le> d * 12" and d9: "d * 12 < 9" using w(3) by auto
  have "\<lfloor>d * 12\<rfloor> < 9" using d9 by (simp add: floor_less_iff)
  then have fl: "\<lfloor>d * 12\<rfloor> \<le> 8" by simp
  have "estimate_travel_minutes a b = max (py_trunc (d / 5 * 60)) 8"
    using ne ov la lb sp
    by (auto simp: estimate_travel_minutes_def distance_between_pair_def Let_def d_def)
  also have "d / 5 * 60 = d * 12" by simp
  also have "py_trunc (d * 12) = \<lfloor>d * 12\<rfloor>" using d0 by (simp add: py_trunc_def)
  finally show ?thesis using fl by simp
qed

lemma LOCATION_MAP_hotel_entry:
  "LOCATION_MAP HOTEL_NAME = Some (loc ''citizenM London Bankside'' 51.5055 (-0.0993) ''hotel'' 30
     [''citizenm'', ''citizenm bankside'', ''citizenm london bankside''] [])"
  by (simp add: LOCATION_MAP_def dict_get_def LOCATION_LIBRARY_def loc_def HOTEL_NAME_def)

lemma LOCATION_MAP_baristas_entry:
  "LOCATION_MAP ''The Gentlemen Baristas Bankside'' =
     Some (loc ''The Gentlemen Baristas Bankside'' 51.5066 (-0.0999) ''food'' 30
       [''gentlemen baristas''] [])"
  by (simp add: LOCATION_MAP_def dict_get_def LOCATION_LIBRARY_def loc_def)

lemma LOCATION_MAP_borough_entry:
  "LOCATION_MAP ''Borough Market'' =
     Some (loc ''Borough Market'' 51.5054 (-0.0911) ''food'' 60 [''borough market''] [])"
  by (simp add: LOCATION_MAP_def dict_get_def LOCATION_LIBRARY_def loc_def)

lemma LOCATION_MAP_oblix_entry:
  "LOCATION_MAP ''Oblix at The Shard'' =
     Some (loc ''Oblix at The Shard'' 51.5045 (-0.0865) ''food'' 120 [''oblix'', ''oblix the shard''] [])"
  by (simp add: LOCATION_MAP_def dict_get_def LOCATION_LIBRARY_def loc_def)

lemma LOCATION_MAP_hawksmoor_entry:
  "LOCATION_MAP ''Hawksmoor Borough'' =
     Some (loc ''Hawksmoor Borough'' 51.5059 (-0.0919) ''food'' 90
       [''hawksmoor'', ''hawksmoor borough''] [])"
  by (simp add: LOCATION_MAP_def dict_get_def LOCATION_LIBRARY_def loc_def)

lemma estimate_hotel_baristas:
  "estimate_travel_minutes HOTEL_NAME ''The Gentlemen Baristas Bankside'' = 8"
  by (rule estimate_travel_minutes_near [OF _ _ _ LOCATION_MAP_hotel_entry LOCATION_MAP_baristas_entry,
        where u = "0.0011" and v = "0.0006" and w = "0.0012"])
     (simp_all add: dict_get_def TRANSIT_OVERRIDES_def HOTEL_NAME_def loc_def walkable_def power2_eq_square)

lemma estimate_baristas_hotel:
  "estimate_travel_minutes ''The Gentlemen Baristas Bankside'' HOTEL_NAME = 8"
  by (rule estimate_travel_minutes_near [OF _ _ _ LOCATION_MAP_baristas_entry LOCATION_MAP_hotel_entry,
        where u = "0.0011" and v = "0.0006" and w = "0.0012"])
     (simp_all add: dict_get_def TRANSIT_OVERRIDES_def HOTEL_NAME_def loc_def walkable_def power2_eq_square)

lemma estimate_hotel_borough:
  "estimate_travel_minutes HOTEL_NAME ''Borough Market'' = 8"
  by (rule estimate_travel_minutes_near [OF _ _ _ LOCATION_MAP_hotel_entry LOCATION_MAP_borough_entry,
        where u = "0.0001" and v = "0.0082" and w = "0.0058"])
     (simp_all add: dict_get_def TRANSIT_OVERRIDES_def HOTEL_NAME_def loc_def walkable_def power2_eq_square)

lemma estimate_borough_oblix:
  "estimate_travel_minutes ''Borough Market'' ''Oblix at The Shard'' = 8"
  by (rule estimate_travel_minutes_near [OF _ _ _ LOCATION_MAP_borough_entry LOCATION_MAP_oblix_entry,
        where u = "0.0009" and v = "0.0046" and w = "0.0034"])
     (simp_all add: dict_get_def TRANSIT_OVERRIDES_def HOTEL_NAME_def loc_def walkable_def power2_eq_square)

lemma estimate_oblix_hawksmoor:
  "estimate_travel_minutes ''Oblix at The Shard'' ''Hawksmoor Borough'' = 8"
  by (rule estimate_travel_minutes_near [OF _ _ _ LOCATION_MAP_oblix_entry LOCATION_MAP_hawksmoor_entry,
        where u = "0.0014" and v = "0.0054" and w = "0.0041"])
     (simp_all add: dict_get_def TRANSIT_OVERRIDES_def HOTEL_NAME_def loc_def walkable_def power2_eq_square)

lemma estimate_hawksmoor_hotel:
  "estimate_travel_minutes ''Hawksmoor Borough'' HOTEL_NAME = 8"
  by (rule estimate_travel_minutes_near [OF _ _ _ LOCATION_MAP_hawksmoor_entry LOCATION_MAP_hotel_entry,
        where u = "0.0004" and v = "0.0074" and w = "0.00525"])
     (simp_all add: dict_get_def TRANSIT_OVERRIDES_def HOTEL_NAME_def loc_def walkable_def power2_eq_square)

lemma estimate_borough_hawksmoor:
  "estimate_travel_minutes ''Borough Market'' ''Hawksmoor Borough'' = 8"
  by (rule estimate_travel_minutes_near [OF _ _ _ LOCATION_MAP_borough_entry LOCATION_MAP_hawksmoor_entry,
        where u = "0.0005" and v = "0.0008" and w = "0.0008"])
     (simp_all add: dict_get_def TRANSIT_OVERRIDES_def HOTEL_NAME_def loc_def walkable_def power2_eq_square)

section \<open>The schedules of the example days\<close>

lemma estimate_borough_hotel: "estimate_travel_minutes ''Borough Market'' HOTEL_NAME = 8"
  using estimate_travel_minutes_commute [of "''Borough Market''" HOTEL_NAME] estimate_hotel_borough
  by (simp add: dict_get_def TRANSIT_OVERRIDES_def HOTEL_NAME_def)

lemma LOCATION_MAP_shard_entry:
  "LOCATION_MAP ''The Shard'' =
     Some (loc ''The Shard'' 51.5045 (-0.0865) ''landmark'' 40 [''the shard'', ''shard''] [])"
  by (simp add: LOCATION_MAP_def dict_get_def LOCATION_LIBRARY_def loc_def)

lemma LOCATION_MAP_pier_entry:
  "LOCATION_MAP ''Westminster Pier'' =
     Some (loc ''Westminster Pier'' 51.5010 (-0.1230) ''transport'' 10 [''westminster pier''] [])"
  by (simp add: LOCATION_MAP_def dict_get_def LOCATION_LIBRARY_def loc_def)

lemmas catalog_entries =
  LOCATION_MAP_hotel_entry [unfolded HOTEL_NAME_def] LOCATION_MAP_baristas_entry
  LOCATION_MAP_borough_entry LOCATION_MAP_oblix_entry LOCATION_MAP_hawksmoor_entry
  LOCATION_MAP_shard_entry LOCATION_MAP_pier_entry loc_def

lemmas near_estimates =
  estimate_hotel_baristas [unfolded HOTEL_NAME_def] estimate_baristas_hotel [unfolded HOTEL_NAME_def]
  estimate_hotel_borough [unfolded HOTEL_NAME_def] estimate_borough_hotel [unfolded HOTEL_NAME_def]
  estimate_borough_oblix estimate_oblix_hawksmoor estimate_borough_hawksmoor
  estimate_hawksmoor_hotel [unfolded HOTEL_NAME_def]
  estimate_hotel_heathrow [unfolded HOTEL_NAME_def]

lemmas schedule_steps =
  mk_day_def HOTEL_NAME_def Let_def poi_filter_def drop_shard_def visits_order_of_def
  PREFERRED_ORDER_def evening_block_def departure_block_def describe_location_def
  LOCATION_DESCRIPTIONS_def dict_get_def friendly_transfer_detail_def TRANSFER_NOTES_def

lemma default_bounds:
  "get_day_time_bounds (mk_day i ''arrival'' [] locs) = Inr (900, 1380)"
  "get_day_time_bounds (mk_day i ''mayfair'' [] locs) = Inr (570, 1320)"
  "get_day_time_bounds (mk_day i ''departure'' [] locs) = Inr (420, 720)"
  by (simp_all add: mk_day_def get_day_time_bounds_def presets_def dict_get_def)

lemma short_day_bounds: "get_day_time_bounds short_day = Inr (540, 640)"
  by (simp add: short_day_def mk_day_def get_day_time_bounds_def parse_time_range_def
      replace_dashes_def is_digit_def py_int_def digit_value_def)

lemma late_departure_bounds: "get_day_time_bounds late_departure_day = Inr (690, 750)"
  by (simp add: late_departure_day_def mk_day_def get_day_time_bounds_def parse_time_range_def
      replace_dashes_def is_digit_def py_int_def digit_value_def)

lemma arrival_day_run: "build_day_schedule arrival_day = Inr arrival_day_schedule"
  unfolding build_day_schedule_def arrival_day_def default_bounds arrival_day_schedule_def
  by (simp add: schedule_steps catalog_entries near_estimates
      arrival_block_eq [unfolded HOTEL_NAME_def])

lemma dinner_day_run: "build_day_schedule dinner_day = Inr dinner_day_schedule"
  unfolding build_day_schedule_def dinner_day_def default_bounds dinner_day_schedule_def
  by (simp add: schedule_steps catalog_entries near_estimates)

lemma pier_day_run: "build_day_schedule pier_day = Inr pier_day_schedule"
  unfolding build_day_schedule_def pier_day_def default_bounds pier_day_schedule_def
  by (simp add: schedule_steps catalog_entries near_estimates)

lemma short_day_run: "build_day_schedule short_day = Inr short_day_schedule"
  unfolding build_day_schedule_def short_day_bounds short_day_schedule_def
  by (simp add: short_day_def schedule_steps catalog_entries near_estimates)

lemma departure_day_run: "build_day_schedule departure_day = Inr departure_day_schedule"
  unfolding build_day_schedule_def departure_day_def default_bounds departure_day_schedule_def
  by (simp add: schedule_steps catalog_entries near_estimates)

lemma late_departure_run: "build_day_schedule late_departure_day = Inr late_departure_schedule"
  unfolding build_day_schedule_def late_departure_bounds late_departure_schedule_def
  by (simp add: late_departure_day_def schedule_steps catalog_entries near_estimates)

section \<open>Invariants of the deduplication\<close>

lemma compute_centroid_ok: "\<exists>c. compute_centroid ns = Inr c"
proof -
  obtain h where "LOCATION_MAP HOTEL_NAME = Some h" using LOCATION_MAP_hotel by blast
  then show ?thesis
    by (cases "centroid_sums ns (0, 0, 0)") (auto simp: compute_centroid_def)
qed

lemma centroids_of_ok: "\<exists>cs. centroids_of days = Inr cs \<and> map fst cs = map index days"
proof (induction days)
  case Nil
  then show ?case by simp
next
  case (Cons d days)
  obtain c where "compute_centroid (if locations d = [] then [HOTEL_NAME] else locations d) = Inr c"
    using compute_centroid_ok by blast
  with Cons show ?case by auto
qed

lemma dict_get_defined: "k \<in> fst ` set kvs \<Longrightarrow> dict_get kvs k \<noteq> None"
  by (simp add: dict_get_def map_of_eq_None_iff)

lemma setdefault_append_keys:
  "map fst (setdefault_append al n i) = (if n \<in> fst ` set al then map fst al else map fst al @ [n])"
  by (induction al n i rule: setdefault_append.induct) auto

lemma setdefault_append_distinct:
  "distinct (map fst al) \<Longrightarrow> distinct (map fst (setdefault_append al n i))"
  by (simp add: setdefault_append_keys)

lemma setdefault_append_lookup:
  "distinct (map fst al) \<Longrightarrow>
   map_of (setdefault_append al n i) k =
     (if k = n then Some ((case map_of al n of None \<Rightarrow> [] | Some is \<Rightarrow> is) @ [i]) else map_of al k)"
  by (induction al n i rule: setdefault_append.induct) (auto simp: rev_image_eqI)

lemma fill_distinct: "distinct (map fst al) \<Longrightarrow> distinct (map fst (fill al ps))"
  unfolding fill_def by (induction ps arbitrary: al) (auto simp: setdefault_append_distinct)

lemma fill_lookup:
  "distinct (map fst al) \<Longrightarrow>
   map_of (fill al ps) k =
     (let new = map snd (filter (\<lambda>p. fst p = k) ps)
      in case map_of al k of
           None \<Rightarrow> if new = [] then None else Some new
         | Some is \<Rightarrow> Some (is @ new))"
proof (induction ps arbitrary: al)
  case Nil
  then show ?case by (simp add: fill_def split: option.splits)
next
  case (Cons p ps)
  have d: "distinct (map fst (setdefault_append al (fst p) (snd p)))"
    using Cons.prems by (rule setdefault_append_distinct)
  have "fill al (p # ps) = fill (setdefault_append al (fst p) (snd p)) ps"
    by (simp add: fill_def)
  then show ?case
    using Cons.IH [OF d] setdefault_append_lookup [OF Cons.prems, of "fst p" "snd p" k]
    by (auto simp: Let_def split: option.splits)
qed

lemma index_by_loc_of_fill: "index_by_loc_of days = fill [] (loc_pairs days)"
proof -
  have "foldl (\<lambda>acc day. foldl (\<lambda>acc' n. setdefault_append acc' n (index day)) acc (locations day)) al days
        = fill al (loc_pairs days)" for al
  proof (induction days arbitrary: al)
    case Nil
    then show ?case by (simp add: fill_def loc_pairs_def)
  next
    case (Cons d days)
    have inner: "foldl (\<lambda>acc' n. setdefault_append acc' n (index d)) al ns
        = fill al (map (\<lambda>n. (n, index d)) ns)" for ns al
      by (induction ns arbitrary: al) (auto simp: fill_def)
    show ?case
      using Cons.IH by (simp add: inner loc_pairs_def fill_def)
  qed
  then show ?thesis by (simp add: index_by_loc_of_def)
qed

lemma index_by_loc_of_distinct: "distinct (map fst (index_by_loc_of days))"
  by (simp add: index_by_loc_of_fill fill_distinct)

lemma index_by_loc_of_entry:
  "(n, is) \<in> set (index_by_loc_of days) \<Longrightarrow> is = occurrences days n \<and> is \<noteq> []"
proof -
  assume "(n, is) \<in> set (index_by_loc_of days)"
  then have "map_of (index_by_loc_of days) n = Some is"
    using index_by_loc_of_distinct by simp
  then show ?thesis
    using fill_lookup [of "[]" "loc_pairs days" n]
    by (auto simp: index_by_loc_of_fill occurrences_def Let_def split: if_splits)
qed

lemma occurrences_Nil: "occurrences [] n = []"
  by (simp add: occurrences_def loc_pairs_def)

lemma occurrences_Cons:
  "occurrences (d # days) n = replicate (count_list (locations d) n) (index d) @ occurrences days n"
proof -
  have "map snd (filter (\<lambda>p. fst p = n) (map (\<lambda>m. (m, j)) ns)) = replicate (count_list ns n) j"
    for ns :: "string list" and j :: int
    by (induction ns) auto
  then show ?thesis by (simp add: occurrences_def loc_pairs_def)
qed

lemma count_list_replicate: "count_list (replicate m x) y = (if x = y then m else 0)"
  by (induction m) auto

lemma occurrences_set:
  "idx \<in> set (occurrences days n) \<Longrightarrow> \<exists>d\<in>set days. index d = idx \<and> n \<in> set (locations d)"
proof (induction days)
  case Nil
  then show ?case by (simp add: occurrences_Nil)
next
  case (Cons d days)
  then show ?case
    by (auto simp: occurrences_Cons count_list_0_iff split: if_splits)
qed

lemma occurrences_count_from:
  "(\<forall>j<length days. index (days ! j) = int (k + j)) \<Longrightarrow>
   count_list (occurrences days n) (int i) =
     (if k \<le> i \<and> i < k + length days then count_list (locations (days ! (i - k))) n else 0)"
proof (induction days arbitrary: k)
  case Nil
  then show ?case by (simp add: occurrences_Nil)
next
  case (Cons d days)
  have d: "index d = int k" using Cons.prems by auto
  have rest: "\<forall>j<length days. index (days ! j) = int (Suc k + j)"
    using Cons.prems by auto
  from Cons.IH [OF rest]
  have ih: "count_list (occurrences days n) (int i) =
     (if Suc k \<le> i \<and> i < Suc k + length days then count_list (locations (days ! (i - Suc k))) n else 0)" .
  show ?case
  proof (cases "i = k")
    case True
    with ih show ?thesis by (simp add: occurrences_Cons count_list_replicate d)
  next
    case False
    then have "(d # days) ! (i - k) = days ! (i - Suc k)" if "k \<le> i"
    proof -
      from that False obtain m where m: "i - k = Suc m" by (cases "i - k") auto
      then have "i - Suc k = m" by simp
      with m show ?thesis by simp
    qed
    with False show ?thesis
      by (auto simp: occurrences_Cons count_list_replicate d ih)
  qed
qed

lemma occurrences_count:
  "indexed_by_position days \<Longrightarrow> i < length days \<Longrightarrow>
   count_list (occurrences days n) (int i) = count_list (locations (days ! i)) n"
  using occurrences_count_from [of days 0 n i] by (simp add: indexed_by_position_def)

lemma occurrences_range:
  "indexed_by_position days \<Longrightarrow> idx \<in> set (occurrences days n) \<Longrightarrow>
   0 \<le> idx \<and> idx < int (length days)"
proof -
  assume wf: "indexed_by_position days" and "idx \<in> set (occurrences days n)"
  then obtain d where "d \<in> set days" "index d = idx" using occurrences_set by blast
  then obtain i where "i < length days" "days ! i = d" by (auto simp: in_set_conv_nth)
  with wf \<open>index d = idx\<close> show ?thesis by (auto simp: indexed_by_position_def)
qed

lemma py_pos_valid: "0 \<le> idx \<Longrightarrow> idx < int (length xs) \<Longrightarrow> py_pos xs idx = Inr (nat idx)"
  by (simp add: py_pos_def Let_def)

lemma count_list_remove1: "count_list (remove1 n xs) n = count_list xs n - 1"
  by (induction xs) auto

lemma count_list_remove1_other: "m \<noteq> n \<Longrightarrow> count_list (remove1 n xs) m = count_list xs m"
  by (induction xs) auto

lemma min_loop_ok:
  "(\<forall>i\<in>set is. \<exists>k. key i = Inr k) \<Longrightarrow>
   \<exists>b. min_loop key is (b0, k0) = Inr b \<and> (b = b0 \<or> b \<in> set is)"
proof (induction "is" arbitrary: b0 k0)
  case Nil
  then show ?case by simp
next
  case (Cons i "is")
  then obtain k where k: "key i = Inr k" by auto
  from Cons.prems have r: "\<forall>i\<in>set is. \<exists>k. key i = Inr k" by simp
  show ?case
  proof (cases "dist_less k k0")
    case True
    with Cons.IH [OF r, of i k] k show ?thesis by auto
  next
    case False
    with Cons.IH [OF r, of b0 k0] k show ?thesis by auto
  qed
qed

lemma min_index_ok:
  "(\<forall>i\<in>set is. \<exists>k. key i = Inr k) \<Longrightarrow> is \<noteq> [] \<Longrightarrow>
   \<exists>b. min_index key is = Inr b \<and> b \<in> set is"
proof (cases "is")
  case Nil
  assume "is \<noteq> []"
  with Nil show ?thesis by simp
next
  case (Cons i rest)
  assume a: "\<forall>i\<in>set is. \<exists>k. key i = Inr k"
  then obtain k where k: "key i = Inr k" using Cons by auto
  from a Cons have "\<forall>i\<in>set rest. \<exists>k. key i = Inr k" by simp
  from min_loop_ok [OF this, of i k] k Cons show ?thesis by auto
qed

lemma centroid_key_ok: "dict_get cs idx \<noteq> None \<Longrightarrow> \<exists>k. centroid_key cs n idx = Inr k"
  by (auto simp: centroid_key_def)


lemma strip_relates_skip:
  assumes "strip_relates n b rest days days'"
    and "idx = b \<or> (\<exists>j<length days. idx = int j \<and>
           ((n = HOTEL_NAME \<and> theme (days ! j) = ''arrival'') \<or> n \<notin> set (locations (days ! j))))"
  shows "strip_relates n b (idx # rest) days days'"
  unfolding strip_relates_def
proof (intro conjI allI impI)
  show "length days' = length days" using assms(1) by (simp add: strip_relates_def)
next
  fix i assume i: "i < length days"
  from assms(1) i show "index (days' ! i) = index (days ! i)" "theme (days' ! i) = theme (days ! i)"
    by (simp_all add: strip_relates_def)
  from assms(1) i have c: "count_list (locations (days' ! i)) n =
          (if int i = b \<or> (n = HOTEL_NAME \<and> theme (days ! i) = ''arrival'')
           then count_list (locations (days ! i)) n
           else count_list (locations (days ! i)) n - count_list rest (int i))"
    by (simp add: strip_relates_def)
  show "count_list (locations (days' ! i)) n =
          (if int i = b \<or> (n = HOTEL_NAME \<and> theme (days ! i) = ''arrival'')
           then count_list (locations (days ! i)) n
           else count_list (locations (days ! i)) n - count_list (idx # rest) (int i))"
  proof (cases "int i = b \<or> (n = HOTEL_NAME \<and> theme (days ! i) = ''arrival'')")
    case True
    with c show ?thesis by simp
  next
    case False
    show ?thesis
    proof (cases "idx = int i")
      case True
      with False assms(2) have "n \<notin> set (locations (days ! i))" by auto
      then have "count_list (locations (days ! i)) n = 0" by (simp add: count_list_0_iff)
      with c False show ?thesis by auto
    next
      case ne: False
      with c False show ?thesis by auto
    qed
  qed
next
  fix i m assume "i < length days" "m \<noteq> n"
  with assms(1) show "count_list (locations (days' ! i)) m = count_list (locations (days ! i)) m"
    by (simp add: strip_relates_def)
qed

lemma strip_relates_remove:
  assumes j: "j < length days" "int j \<noteq> b"
    and ne: "\<not> (n = HOTEL_NAME \<and> theme (days ! j) = ''arrival'')"
    and r: "strip_relates n b rest
              (days[j := (days ! j)\<lparr>locations := remove1 n (locations (days ! j)),
                                   removed_duplicates := removed_duplicates (days ! j) @ [n]\<rparr>]) days'"
  shows "strip_relates n b (int j # rest) days days'"
  unfolding strip_relates_def
proof (intro conjI allI impI)
  let ?d1 = "days[j := (days ! j)\<lparr>locations := remove1 n (locations (days ! j)),
                                   removed_duplicates := removed_duplicates (days ! j) @ [n]\<rparr>]"
  show "length days' = length days" using r by (simp add: strip_relates_def)
  {
    fix i assume i: "i < length days"
    have d1: "index (?d1 ! i) = index (days ! i)" "theme (?d1 ! i) = theme (days ! i)"
      using i by (cases "i = j"; simp)+
    from r i show "index (days' ! i) = index (days ! i)" "theme (days' ! i) = theme (days ! i)"
      using d1 by (simp_all add: strip_relates_def)
    from r i have c: "count_list (locations (days' ! i)) n =
          (if int i = b \<or> (n = HOTEL_NAME \<and> theme (days ! i) = ''arrival'')
           then count_list (locations (?d1 ! i)) n
           else count_list (locations (?d1 ! i)) n - count_list rest (int i))"
      using d1 by (simp add: strip_relates_def)
    show "count_list (locations (days' ! i)) n =
          (if int i = b \<or> (n = HOTEL_NAME \<and> theme (days ! i) = ''arrival'')
           then count_list (locations (days ! i)) n
           else count_list (locations (days ! i)) n - count_list (int j # rest) (int i))"
    proof (cases "i = j")
      case True
      with c j ne show ?thesis by (auto simp: count_list_remove1)
    next
      case False
      with c i show ?thesis by auto
    qed
  }
  {
    fix i m assume i: "i < length days" and m: "m \<noteq> n"
    have "count_list (locations (?d1 ! i)) m = count_list (locations (days ! i)) m"
      using i m by (cases "i = j") (simp_all add: count_list_remove1_other)
    with r i m show "count_list (locations (days' ! i)) m = count_list (locations (days ! i)) m"
      by (simp add: strip_relates_def)
  }
qed

lemma strip_relates_Nil: "strip_relates n b [] days days"
  by (simp add: strip_relates_def)

lemma strip_loop_props:
  "\<forall>idx\<in>set is. 0 \<le> idx \<and> idx < int (length days) \<Longrightarrow>
   \<exists>days'. strip_loop n b is days = Inr days' \<and> strip_relates n b is days days'"
proof (induction "is" arbitrary: days)
  case Nil
  then show ?case by (simp add: strip_relates_Nil)
next
  case (Cons idx rest)
  from Cons.prems have rest: "\<forall>idx\<in>set rest. 0 \<le> idx \<and> idx < int (length days)" by simp
  from Cons.prems have idx: "0 \<le> idx" "idx < int (length days)" by simp_all
  define j where "j = nat idx"
  have j: "j < length days" "idx = int j" using idx by (simp_all add: j_def)
  have pos: "py_pos days idx = Inr j" using idx by (simp add: py_pos_valid j_def)
  show ?case
  proof (cases "idx = b")
    case True
    from Cons.IH [OF rest] obtain days' where
      d: "strip_loop n b rest days = Inr days'" "strip_relates n b rest days days'" by blast
    from strip_relates_skip [OF d(2), of idx] True have "strip_relates n b (idx # rest) days days'"
      by simp
    with d(1) True show ?thesis by simp
  next
    case False
    show ?thesis
    proof (cases "(n = HOTEL_NAME \<and> theme (days ! j) = ''arrival'') \<or> n \<notin> set (locations (days ! j))")
      case True
      from Cons.IH [OF rest] obtain days' where
        d: "strip_loop n b rest days = Inr days'" "strip_relates n b rest days days'" by blast
      from strip_relates_skip [OF d(2), of idx] True j
      have "strip_relates n b (idx # rest) days days'" by blast
      moreover have "strip_loop n b (idx # rest) days = Inr days'"
        using False pos True d(1) by (auto simp: Let_def)
      ultimately show ?thesis by blast
    next
      case keep: False
      let ?d1 = "days[j := (days ! j)\<lparr>locations := remove1 n (locations (days ! j)),
                                   removed_duplicates := removed_duplicates (days ! j) @ [n]\<rparr>]"
      have "\<forall>idx\<in>set rest. 0 \<le> idx \<and> idx < int (length ?d1)" using rest by simp
      from Cons.IH [OF this] obtain days' where
        d: "strip_loop n b rest ?d1 = Inr days'" "strip_relates n b rest ?d1 days'" by blast
      have "strip_relates n b (int j # rest) days days'"
        using j False keep d(2) by (intro strip_relates_remove) auto
      moreover have "strip_loop n b (idx # rest) days = Inr days'"
        using False pos keep d(1) by (auto simp: Let_def)
      ultimately show ?thesis using j by auto
    qed
  qed
qed

lemma merge_relates_Nil: "merge_relates cs [] days days"
  by (simp add: merge_relates_def)

lemma count_pos_single:
  assumes "length is \<le> 1" and "0 < count_list is x"
  shows "is = [x]"
proof -
  from assms(2) have "x \<in> set is" using count_list_0_iff [of "is" x] by auto
  with assms(1) show ?thesis by (cases "is") auto
qed

lemma merge_relates_skip:
  assumes r: "merge_relates cs rest days days'"
    and n: "n \<notin> fst ` set rest"
    and c: "\<forall>i<length days. count_list is (int i) = count_list (locations (days ! i)) n"
    and s: "length is \<le> 1 \<or> \<not> dedup_applies n"
  shows "merge_relates cs ((n, is) # rest) days days'"
proof -
  have same: "\<forall>i<length days. count_list (locations (days' ! i)) n = count_list (locations (days ! i)) n"
    using r n by (simp add: merge_relates_def)
  have own: "\<exists>b. (1 < length is \<longrightarrow> min_index (centroid_key cs n) is = Inr b) \<and>
             (\<forall>i<length days. n \<in> set (locations (days' ! i)) \<longrightarrow>
               int i = b \<or> (n = HOTEL_NAME \<and> theme (days ! i) = ''arrival''))"
    if d: "dedup_applies n"
  proof -
    from s d have l: "length is \<le> 1" by simp
    define b where "b = (case is of [] \<Rightarrow> 0 | x # _ \<Rightarrow> x)"
    have "int i = b" if i: "i < length days" and m: "n \<in> set (locations (days' ! i))" for i
    proof -
      from m have "0 < count_list (locations (days' ! i)) n"
        using count_list_0_iff [of "locations (days' ! i)" n] by auto
      with same c i have "0 < count_list is (int i)" by simp
      from count_pos_single [OF l this] show ?thesis by (simp add: b_def)
    qed
    with l show ?thesis by auto
  qed
  have rest_own: "\<forall>(k, is')\<in>set rest. dedup_applies k \<longrightarrow>
        (\<exists>b. (1 < length is' \<longrightarrow> min_index (centroid_key cs k) is' = Inr b) \<and>
             (\<forall>i<length days. k \<in> set (locations (days' ! i)) \<longrightarrow>
               int i = b \<or> (k = HOTEL_NAME \<and> theme (days ! i) = ''arrival'')))"
    using r by (simp add: merge_relates_def)
  have unchanged: "\<forall>k. k \<notin> fst ` set ((n, is) # rest) \<or> \<not> dedup_applies k \<longrightarrow>
        (\<forall>i<length days. count_list (locations (days' ! i)) k = count_list (locations (days ! i)) k)"
    using r by (auto simp: merge_relates_def)
  have p1: "length days' = length days \<and>
     (\<forall>i<length days.
        index (days' ! i) = index (days ! i) \<and> theme (days' ! i) = theme (days ! i) \<and>
        (\<forall>k. count_list (locations (days' ! i)) k \<le> count_list (locations (days ! i)) k))"
    using r by (simp add: merge_relates_def)
  show ?thesis
    unfolding merge_relates_def
    using p1 own rest_own unchanged by auto
qed

lemma merge_relates_step:
  assumes st: "strip_relates n b is days days1"
    and r: "merge_relates cs rest days1 days'"
    and n: "n \<notin> fst ` set rest"
    and c: "\<forall>i<length days. count_list is (int i) = count_list (locations (days ! i)) n"
    and d: "dedup_applies n"
    and w: "min_index (centroid_key cs n) is = Inr b"
  shows "merge_relates cs ((n, is) # rest) days days'"
proof -
  have len1: "length days1 = length days" using st by (simp add: strip_relates_def)
  have len: "length days' = length days" using r len1 by (simp add: merge_relates_def)
  have st_i: "index (days1 ! i) = index (days ! i)" "theme (days1 ! i) = theme (days ! i)"
    "\<And>m. m \<noteq> n \<Longrightarrow> count_list (locations (days1 ! i)) m = count_list (locations (days ! i)) m"
    "count_list (locations (days1 ! i)) n =
          (if int i = b \<or> (n = HOTEL_NAME \<and> theme (days ! i) = ''arrival'')
           then count_list (locations (days ! i)) n
           else count_list (locations (days ! i)) n - count_list is (int i))"
    if "i < length days" for i
    using st that by (simp_all add: strip_relates_def)
  have r_i: "index (days' ! i) = index (days1 ! i)" "theme (days' ! i) = theme (days1 ! i)"
    "\<And>k. count_list (locations (days' ! i)) k \<le> count_list (locations (days1 ! i)) k"
    if "i < length days" for i
    using r that len1 by (simp_all add: merge_relates_def)
  have r_same: "count_list (locations (days' ! i)) k = count_list (locations (days1 ! i)) k"
    if "i < length days" "k \<notin> fst ` set rest \<or> \<not> dedup_applies k" for i k
    using r that len1 by (simp add: merge_relates_def)
  have mono1: "count_list (locations (days1 ! i)) k \<le> count_list (locations (days ! i)) k"
    if "i < length days" for i k
    using st_i(3) [OF that, of k] st_i(4) [OF that] by (cases "k = n") auto
  have p1: "\<forall>i<length days.
        index (days' ! i) = index (days ! i) \<and> theme (days' ! i) = theme (days ! i) \<and>
        (\<forall>k. count_list (locations (days' ! i)) k \<le> count_list (locations (days ! i)) k)"
  proof (intro allI impI conjI)
    fix i assume i: "i < length days"
    show "index (days' ! i) = index (days ! i)" using r_i(1) [OF i] st_i(1) [OF i] by simp
    show "theme (days' ! i) = theme (days ! i)" using r_i(2) [OF i] st_i(2) [OF i] by simp
    fix k
    show "count_list (locations (days' ! i)) k \<le> count_list (locations (days ! i)) k"
      using r_i(3) [OF i, of k] mono1 [OF i, of k] by linarith
  qed
  have p2: "\<forall>k. k \<notin> fst ` set ((n, is) # rest) \<or> \<not> dedup_applies k \<longrightarrow>
        (\<forall>i<length days. count_list (locations (days' ! i)) k = count_list (locations (days ! i)) k)"
  proof (intro allI impI)
    fix k i assume k: "k \<notin> fst ` set ((n, is) # rest) \<or> \<not> dedup_applies k" and i: "i < length days"
    from k d have kn: "k \<noteq> n" by auto
    from k have "k \<notin> fst ` set rest \<or> \<not> dedup_applies k" by auto
    from r_same [OF i this] st_i(3) [OF i kn]
    show "count_list (locations (days' ! i)) k = count_list (locations (days ! i)) k" by simp
  qed
  have own: "\<forall>i<length days. n \<in> set (locations (days' ! i)) \<longrightarrow>
               int i = b \<or> (n = HOTEL_NAME \<and> theme (days ! i) = ''arrival'')"
  proof (intro allI impI)
    fix i assume i: "i < length days" and m: "n \<in> set (locations (days' ! i))"
    from m have "0 < count_list (locations (days' ! i)) n"
      using count_list_0_iff [of "locations (days' ! i)" n] by auto
    with r_same [OF i, of n] n have pos: "0 < count_list (locations (days1 ! i)) n" by simp
    show "int i = b \<or> (n = HOTEL_NAME \<and> theme (days ! i) = ''arrival'')"
    proof (rule ccontr)
      assume "\<not> (int i = b \<or> (n = HOTEL_NAME \<and> theme (days ! i) = ''arrival''))"
      with st_i(4) [OF i] c i have "count_list (locations (days1 ! i)) n = 0" by simp
      with pos show False by simp
    qed
  qed
  have rest_own: "\<exists>b. (1 < length is' \<longrightarrow> min_index (centroid_key cs k) is' = Inr b) \<and>
             (\<forall>i<length days. k \<in> set (locations (days' ! i)) \<longrightarrow>
               int i = b \<or> (k = HOTEL_NAME \<and> theme (days ! i) = ''arrival''))"
    if e: "(k, is') \<in> set rest" and g: "dedup_applies k" for k is'
  proof -
    from r e g obtain b' where
      b': "1 < length is' \<longrightarrow> min_index (centroid_key cs k) is' = Inr b'"
        "\<forall>i<length days1. k \<in> set (locations (days' ! i)) \<longrightarrow>
               int i = b' \<or> (k = HOTEL_NAME \<and> theme (days1 ! i) = ''arrival'')"
      unfolding merge_relates_def by blast
    from b'(2) st_i(2) len1
    have "\<forall>i<length days. k \<in> set (locations (days' ! i)) \<longrightarrow>
               int i = b' \<or> (k = HOTEL_NAME \<and> theme (days ! i) = ''arrival'')" by auto
    with b'(1) show ?thesis by blast
  qed
  have own': "\<exists>b. (1 < length is \<longrightarrow> min_index (centroid_key cs n) is = Inr b) \<and>
             (\<forall>i<length days. n \<in> set (locations (days' ! i)) \<longrightarrow>
               int i = b \<or> (n = HOTEL_NAME \<and> theme (days ! i) = ''arrival''))"
    using own w by blast
  have every: "\<forall>(k, is')\<in>set ((n, is) # rest). dedup_applies k \<longrightarrow>
        (\<exists>b. (1 < length is' \<longrightarrow> min_index (centroid_key cs k) is' = Inr b) \<and>
             (\<forall>i<length days. k \<in> set (locations (days' ! i)) \<longrightarrow>
               int i = b \<or> (k = HOTEL_NAME \<and> theme (days ! i) = ''arrival'')))"
    using own' rest_own by auto
  show ?thesis
    unfolding merge_relates_def using len p1 p2 every by blast
qed

lemma consistent_Cons:
  "consistent ((n, is) # rest) days cs \<Longrightarrow>
   consistent rest days cs \<and>
   (\<forall>idx\<in>set is. 0 \<le> idx \<and> idx < int (length days) \<and> dict_get cs idx \<noteq> None) \<and>
   (\<forall>i<length days. count_list is (int i) = count_list (locations (days ! i)) n)"
  by (auto simp: consistent_def)

lemma consistent_strip:
  assumes "consistent rest days cs" and "strip_relates n b is days days1" and "n \<notin> fst ` set rest"
  shows "consistent rest days1 cs"
proof -
  have len: "length days1 = length days" using assms(2) by (simp add: strip_relates_def)
  have "(\<forall>idx\<in>set is'. 0 \<le> idx \<and> idx < int (length days1) \<and> dict_get cs idx \<noteq> None) \<and>
        (\<forall>i<length days1. count_list is' (int i) = count_list (locations (days1 ! i)) k)"
    if k: "(k, is') \<in> set rest" for k is'
  proof (intro conjI ballI allI impI)
    from k have kn: "k \<noteq> n" using assms(3) by force
    fix idx assume "idx \<in> set is'"
    with assms(1) k len show "0 \<le> idx" "idx < int (length days1)" "dict_get cs idx \<noteq> None"
      by (auto simp: consistent_def)
  next
    from k have kn: "k \<noteq> n" using assms(3) by force
    fix i assume i: "i < length days1"
    then have "count_list (locations (days1 ! i)) k = count_list (locations (days ! i)) k"
      using assms(2) kn len by (simp add: strip_relates_def)
    moreover have "count_list is' (int i) = count_list (locations (days ! i)) k"
      using assms(1) k i len by (auto simp: consistent_def)
    ultimately show "count_list is' (int i) = count_list (locations (days1 ! i)) k" by simp
  qed
  then show ?thesis unfolding consistent_def by blast
qed

lemma merge_loop_props:
  "distinct (map fst al) \<Longrightarrow> consistent al days cs \<Longrightarrow>
   \<exists>days'. merge_loop cs al days = Inr days' \<and> merge_relates cs al days days'"
proof (induction al arbitrary: days)
  case Nil
  then show ?case by (simp add: merge_relates_Nil)
next
  case (Cons p rest)
  obtain n "is" where p: "p = (n, is)" by (cases p)
  from Cons.prems(1) p have n: "n \<notin> fst ` set rest" and dist: "distinct (map fst rest)" by auto
  from consistent_Cons [OF Cons.prems(2) [unfolded p]]
  have cr: "consistent rest days cs"
    and rng: "\<forall>idx\<in>set is. 0 \<le> idx \<and> idx < int (length days) \<and> dict_get cs idx \<noteq> None"
    and cnt: "\<forall>i<length days. count_list is (int i) = count_list (locations (days ! i)) n"
    by auto
  show ?case
  proof (cases "length is \<le> 1 \<or> \<not> dedup_applies n")
    case True
    from Cons.IH [OF dist cr] obtain days' where
      d: "merge_loop cs rest days = Inr days'" "merge_relates cs rest days days'" by blast
    from merge_relates_skip [OF d(2) n cnt True] d(1) True p show ?thesis by auto
  next
    case False
    then have l: "1 < length is" and da: "dedup_applies n" by auto
    from l have ne: "is \<noteq> []" by auto
    have "\<forall>i\<in>set is. \<exists>k. centroid_key cs n i = Inr k" using rng centroid_key_ok by blast
    from min_index_ok [OF this ne] obtain b where
      b: "min_index (centroid_key cs n) is = Inr b" by blast
    from rng have "\<forall>idx\<in>set is. 0 \<le> idx \<and> idx < int (length days)" by blast
    from strip_loop_props [OF this, of n b] obtain days1 where
      s: "strip_loop n b is days = Inr days1" "strip_relates n b is days days1" by blast
    from Cons.IH [OF dist consistent_strip [OF cr s(2) n]] obtain days' where
      d: "merge_loop cs rest days1 = Inr days'" "merge_relates cs rest days1 days'" by blast
    from merge_relates_step [OF s(2) d(2) n cnt da b]
    have "merge_relates cs ((n, is) # rest) days days'" .
    moreover have "merge_loop cs ((n, is) # rest) days = Inr days'"
      using l da b s(1) d(1) by simp
    ultimately show ?thesis using p by blast
  qed
qed

lemma index_by_loc_of_missing:
  "n \<notin> fst ` set (index_by_loc_of days) \<Longrightarrow> occurrences days n = []"
proof -
  assume "n \<notin> fst ` set (index_by_loc_of days)"
  then have "map_of (index_by_loc_of days) n = None" by (simp add: map_of_eq_None_iff)
  then show ?thesis
    using fill_lookup [of "[]" "loc_pairs days" n]
    by (auto simp: index_by_loc_of_fill occurrences_def Let_def split: if_splits)
qed

lemma centroids_keys:
  "centroids_of days = Inr cs \<Longrightarrow> d \<in> set days \<Longrightarrow> dict_get cs (index d) \<noteq> None"
proof -
  assume "centroids_of days = Inr cs" and d: "d \<in> set days"
  with centroids_of_ok [of days] have "map fst cs = map index days" by auto
  then have "fst ` set cs = index ` set days" by (metis set_map)
  with d show ?thesis by (intro dict_get_defined) auto
qed

lemma merge_consistent:
  assumes "indexed_by_position days" and "centroids_of days = Inr cs"
  shows "consistent (index_by_loc_of days) days cs"
proof -
  have "(\<forall>idx\<in>set is. 0 \<le> idx \<and> idx < int (length days) \<and> dict_get cs idx \<noteq> None) \<and>
        (\<forall>i<length days. count_list is (int i) = count_list (locations (days ! i)) k)"
    if "(k, is) \<in> set (index_by_loc_of days)" for k "is"
  proof -
    from index_by_loc_of_entry [OF that] have eq: "is = occurrences days k" by simp
    have "0 \<le> idx \<and> idx < int (length days) \<and> dict_get cs idx \<noteq> None" if "idx \<in> set is" for idx
    proof -
      from that eq occurrences_set obtain d where "d \<in> set days" "index d = idx" by blast
      with centroids_keys [OF assms(2)] have "dict_get cs idx \<noteq> None" by blast
      with occurrences_range [OF assms(1)] that eq show ?thesis by blast
    qed
    moreover have "count_list is (int i) = count_list (locations (days ! i)) k"
      if "i < length days" for i
      using occurrences_count [OF assms(1) that] eq by simp
    ultimately show ?thesis by blast
  qed
  then show ?thesis unfolding consistent_def by blast
qed

lemma merge_duplicate_locations_props:
  assumes "indexed_by_position days"
  shows "\<exists>cs days'. centroids_of days = Inr cs \<and> merge_duplicate_locations days = Inr days' \<and>
           merge_relates cs (index_by_loc_of days) days days'"
proof -
  from centroids_of_ok [of days] obtain cs where cs: "centroids_of days = Inr cs" by blast
  from merge_loop_props [OF index_by_loc_of_distinct merge_consistent [OF assms cs]]
  show ?thesis by (simp add: merge_duplicate_locations_def cs)
qed

lemma filter_at_most_one:
  "(\<forall>i<length xs. \<forall>j<length xs. P (xs ! i) \<and> P (xs ! j) \<longrightarrow> i = j) \<Longrightarrow>
   length (filter P xs) \<le> 1"
proof (induction xs)
  case Nil
  then show ?case by simp
next
  case (Cons x xs)
  have rest: "\<forall>i<length xs. \<forall>j<length xs. P (xs ! i) \<and> P (xs ! j) \<longrightarrow> i = j"
  proof (intro allI impI)
    fix i j assume "i < length xs" "j < length xs" "P (xs ! i) \<and> P (xs ! j)"
    with Cons.prems have "Suc i = Suc j" by (metis length_Cons not_less_eq nth_Cons_Suc)
    then show "i = j" by simp
  qed
  show ?case
  proof (cases "P x")
    case False
    with Cons.IH [OF rest] show ?thesis by simp
  next
    case True
    have "\<not> P y" if "y \<in> set xs" for y
    proof
      assume py: "P y"
      from that obtain j where j: "j < length xs" "xs ! j = y" by (auto simp: in_set_conv_nth)
      with Cons.prems True py have "0 = Suc j"
        by (metis length_Cons not_less_eq nth_Cons_0 nth_Cons_Suc zero_less_Suc)
      then show False by simp
    qed
    then have "filter P xs = []" by (simp add: filter_empty_conv)
    with True show ?thesis by simp
  qed
qed

lemma merge_single_day:
  assumes wf: "indexed_by_position days"
    and r: "merge_relates cs (index_by_loc_of days) days days'"
    and g: "dedup_applies n"
  shows "\<exists>b. \<forall>i<length days. n \<in> set (locations (days' ! i)) \<longrightarrow>
               int i = b \<or> (n = HOTEL_NAME \<and> theme (days ! i) = ''arrival'')"
proof (cases "n \<in> fst ` set (index_by_loc_of days)")
  case True
  then obtain "is" where "(n, is) \<in> set (index_by_loc_of days)" by auto
  with r g show ?thesis unfolding merge_relates_def by blast
next
  case False
  from index_by_loc_of_missing [OF False] have "occurrences days n = []" .
  then have zero: "count_list (locations (days ! i)) n = 0" if "i < length days" for i
    using occurrences_count [OF wf that, of n] by simp
  have "n \<notin> set (locations (days' ! i))" if "i < length days" for i
  proof -
    from r that have "count_list (locations (days' ! i)) n \<le> count_list (locations (days ! i)) n"
      by (simp add: merge_relates_def)
    with zero [OF that] show ?thesis by (simp add: count_list_0_iff)
  qed
  then show ?thesis by blast
qed



lemma index_by_loc_of_present:
  "occurrences days n \<noteq> [] \<Longrightarrow> (n, occurrences days n) \<in> set (index_by_loc_of days)"
proof -
  assume ne: "occurrences days n \<noteq> []"
  have "n \<in> fst ` set (index_by_loc_of days)"
    using ne index_by_loc_of_missing [of n days] by blast
  then obtain "is" where e: "(n, is) \<in> set (index_by_loc_of days)" by force
  from index_by_loc_of_entry [OF e] e show ?thesis by simp
qed

lemma occurrences_position:
  assumes wf: "indexed_by_position days" and idx: "idx \<in> set (occurrences days n)"
  shows "\<exists>i<length days. idx = int i \<and> n \<in> set (locations (days ! i))"
proof -
  from occurrences_set [OF idx] obtain d where
    d: "d \<in> set days" "index d = idx" "n \<in> set (locations d)" by blast
  then obtain i where i: "i < length days" "days ! i = d" by (auto simp: in_set_conv_nth)
  with wf d have "idx = int i" by (auto simp: indexed_by_position_def)
  with i d show ?thesis by blast
qed



lemma dedup_applies_iff:
  "dedup_applies n \<longleftrightarrow>
     n \<in> DEDUP_WHITELIST \<or>
     (\<exists>info. LOCATION_MAP n = Some info \<and> category info \<in> {''transport'', ''hotel''})"
  by (auto simp: dedup_applies_def split: option.splits)

lemma filter_le_one_unique:
  "length (filter P xs) \<le> 1 \<Longrightarrow> i < length xs \<Longrightarrow> j < length xs \<Longrightarrow>
   P (xs ! i) \<Longrightarrow> P (xs ! j) \<Longrightarrow> i = j"
proof (induction xs arbitrary: i j)
  case Nil
  then show ?case by simp
next
  case (Cons x xs)
  have none: "\<not> P (xs ! k)" if "P x" "k < length xs" for k
  proof
    assume "P (xs ! k)"
    moreover have "xs ! k \<in> set xs" using that(2) by simp
    ultimately have "filter P xs \<noteq> []" by (auto simp: filter_empty_conv)
    then have "0 < length (filter P xs)" by simp
    with Cons.prems(1) that(1) show False by simp
  qed
  have le: "length (filter P xs) \<le> 1" using Cons.prems(1) by (simp split: if_splits)
  show ?case
  proof (cases i)
    case 0
    show ?thesis
    proof (cases j)
      case 0
      with \<open>i = 0\<close> show ?thesis by simp
    next
      case (Suc j')
      with 0 Cons.prems none [of j'] show ?thesis by simp
    qed
  next
    case (Suc i')
    show ?thesis
    proof (cases j)
      case 0
      with Suc Cons.prems none [of i'] show ?thesis by simp
    next
      case (Suc j')
      with \<open>i = Suc i'\<close> Cons.prems Cons.IH [OF le, of i' j'] show ?thesis by simp
    qed
  qed
qed

lemma index_by_loc_of_lookup:
  "map_of (index_by_loc_of days) n =
     (if occurrences days n = [] then None else Some (occurrences days n))"
proof (cases "occurrences days n = []")
  case True
  have "n \<notin> fst ` set (index_by_loc_of days)"
  proof
    assume "n \<in> fst ` set (index_by_loc_of days)"
    then obtain "is" where e: "(n, is) \<in> set (index_by_loc_of days)" by force
    from index_by_loc_of_entry [OF e] True show False by simp
  qed
  with True show ?thesis by (simp add: map_of_eq_None_iff)
next
  case False
  from index_by_loc_of_present [OF False] index_by_loc_of_distinct [of days] False
  show ?thesis by simp
qed

lemma hotel_winner_recorded:
  assumes wf: "indexed_by_position days" and ne: "occurrences days HOTEL_NAME \<noteq> []"
  shows "\<exists>j<length days. hotel_winner days = Some (int j) \<and> HOTEL_NAME \<in> set (locations (days ! j))"
proof -
  let ?is = "occurrences days HOTEL_NAME"
  from centroids_of_ok [of days] obtain cs where cs: "centroids_of days = Inr cs" by blast
  from merge_consistent [OF wf cs] index_by_loc_of_present [OF ne]
  have "\<forall>idx\<in>set ?is. dict_get cs idx \<noteq> None" unfolding consistent_def by blast
  then have "\<forall>i\<in>set ?is. \<exists>d. centroid_key cs HOTEL_NAME i = Inr d" using centroid_key_ok by blast
  from min_index_ok [OF this ne] obtain b where
    b: "min_index (centroid_key cs HOTEL_NAME) ?is = Inr b" "b \<in> set ?is" by blast
  from occurrences_position [OF wf b(2)] obtain j where
    j: "j < length days" "b = int j" "HOTEL_NAME \<in> set (locations (days ! j))" by blast
  from b(1) have "hotel_winner days = Some b" by (simp add: hotel_winner_def cs)
  with j show ?thesis by blast
qed

lemma hotel_settled_one_day:
  assumes wf: "indexed_by_position days"
    and one: "length (filter (\<lambda>d. HOTEL_NAME \<in> set (locations d)) days) \<le> 1"
  shows "hotel_settled days"
proof (cases "occurrences days HOTEL_NAME = []")
  case True
  then show ?thesis by (simp add: hotel_settled_def)
next
  case False
  from hotel_winner_recorded [OF wf False] obtain j where
    j: "j < length days" "hotel_winner days = Some (int j)"
      "HOTEL_NAME \<in> set (locations (days ! j))" by blast
  have "hotel_winner days = Some (int i)"
    if "i < length days" "HOTEL_NAME \<in> set (locations (days ! i))" for i
    using filter_le_one_unique [OF one that(1) j(1) that(2) j(3)] j(2) by simp
  then show ?thesis by (simp add: hotel_settled_def)
qed

lemma hotel_settled_arrival_only:
  "\<forall>d\<in>set days. HOTEL_NAME \<in> set (locations d) \<longrightarrow> theme d = ''arrival'' \<Longrightarrow>
   hotel_settled days"
  by (auto simp: hotel_settled_def)

section \<open>The deduplication of the example days\<close>

lemma LOCATION_MAP_eye_entry:
  "LOCATION_MAP ''London Eye'' =
     Some (loc ''London Eye'' 51.5033 (-0.1196) ''landmark'' 60 [''london eye''] [])"
  by (simp add: LOCATION_MAP_def dict_get_def LOCATION_LIBRARY_def loc_def)


lemma dedup_applies_examples:
  "\<not> dedup_applies ''London Eye''" "dedup_applies ''Westminster Pier''"
  "dedup_applies ''citizenM London Bankside''" "dedup_applies ''Heathrow Airport''"
  by (simp_all add: dedup_applies_def DEDUP_WHITELIST_def HOTEL_NAME_def LOCATION_MAP_eye_entry loc_def)


lemma eye_days_merge: "merge_duplicate_locations eye_days = Inr eye_days"
proof -
  obtain cs where cs: "centroids_of eye_days = Inr cs" using centroids_of_ok by blast
  have "index_by_loc_of eye_days = [(''London Eye'', [0, 1])]"
    by (simp add: index_by_loc_of_def eye_days_def mk_day_def)
  then show ?thesis
    by (simp add: merge_duplicate_locations_def cs dedup_applies_examples)
qed














section \<open>The claims\<close>

text \<open>
  Claim C7. \<^verbatim>\<open>parse_time_range\<close> raises \<^verbatim>\<open>ValueError\<close>, and returns no default, on every
  string that contains no substring of the form \<^verbatim>\<open>H[H]hMM\<close>; and
  \<^verbatim>\<open>get_day_time_bounds\<close> fails with that error on every day whose timeline holds
  such a string.
\<close>

theorem malformed_time_range_raises:
  "(\<not> has_time_substring s \<longrightarrow>
      parse_time_range s = Inl (ValueError (''Format dheure inattendu: '' @ s))) \<and>
   (item \<in> set (timeline day) \<and> \<not> has_time_substring (time item) \<longrightarrow>
      (\<exists>msg. get_day_time_bounds day = Inl (ValueError msg)))"
  using parse_time_range_error_iff [of s] get_day_time_bounds_malformed [of item day] by blast

theorem malformed_time_range_raises_witness:
  "\<not> has_time_substring ''abc'' \<and>
   parse_time_range ''abc'' = Inl (ValueError ''Format dheure inattendu: abc'') \<and>
   \<lparr>time = ''abc'', activity = [], item_details = []\<rparr>
     \<in> set (timeline (mk_day 1 ''city'' [''9h00-10h30'', ''abc''] [])) \<and>
   (\<exists>msg. get_day_time_bounds (mk_day 1 ''city'' [''9h00-10h30'', ''abc''] []) = Inl (ValueError msg))"
  using malformed_time_range_raises [of "''abc''" "\<lparr>time = ''abc'', activity = [], item_details = []\<rparr>"
      "mk_day 1 ''city'' [''9h00-10h30'', ''abc''] []"] abc_has_no_time
  by (simp add: mk_day_def)

text \<open>
  Claim C3, as stated, fails: a city day with no timeline entries takes the preset
  window, whose end bound is 21:30 (1290 minutes).
\<close>

theorem city_default_window_counterexample:
  "theme (mk_day 0 ''city'' [] []) = ''city'' \<and>
   get_day_time_bounds (mk_day 0 ''city'' [] []) = Inr (540, 1290)"
  by (simp add: mk_day_def get_day_time_bounds_def presets_def dict_get_def)

text \<open>
  Claim C3, amended. For a city day whose timeline has at least one entry, the end bound
  that \<^verbatim>\<open>get_day_time_bounds\<close> returns is at least 22:30 (1350) and at most 23:30
  (1410); for a city day with no timeline entries it returns the preset window from 9:00
  to 21:30.
\<close>

theorem city_end_bound:
  assumes "theme day = ''city''"
  shows "(timeline day \<noteq> [] \<longrightarrow>
            (\<forall>s e. get_day_time_bounds day = Inr (s, e) \<longrightarrow> 1350 \<le> e \<and> e \<le> 1410)) \<and>
         (timeline day = [] \<longrightarrow> get_day_time_bounds day = Inr (540, 1290))"
proof -
  have "get_day_time_bounds day = Inr (540, 1290)" if "timeline day = []"
    using assms that by (simp add: get_day_time_bounds_def presets_def dict_get_def)
  with city_bounds_with_timeline [OF assms] show ?thesis by blast
qed

theorem city_end_bound_witness:
  "theme (mk_day 2 ''city'' [''9h00-18h00''] []) = ''city'' \<and>
   timeline (mk_day 2 ''city'' [''9h00-18h00''] []) \<noteq> [] \<and>
   get_day_time_bounds (mk_day 2 ''city'' [''9h00-18h00''] []) = Inr (540, 1350) \<and>
   get_day_time_bounds (mk_day 2 ''city'' [''10h15'', ''21h00-23h45''] []) = Inr (615, 1410) \<and>
   \<not> (\<exists>s e. get_day_time_bounds (mk_day 2 ''city'' [''9h00-18h00''] []) = Inr (s, e) \<and>
          \<not> (1350 \<le> e \<and> e \<le> 1410))"
proof -
  have th: "theme (mk_day 2 ''city'' [''9h00-18h00''] []) = ''city''"
    by (simp add: mk_day_def)
  have b: "get_day_time_bounds (mk_day 2 ''city'' [''9h00-18h00''] []) = Inr (540, 1350)"
    "get_day_time_bounds (mk_day 2 ''city'' [''10h15'', ''21h00-23h45''] []) = Inr (615, 1410)"
    by (simp_all add: mk_day_def get_day_time_bounds_def parse_time_range_def
        replace_dashes_def is_digit_def py_int_def digit_value_def)
  have ne: "timeline (mk_day 2 ''city'' [''9h00-18h00''] []) \<noteq> []"
    by (simp add: mk_day_def)
  from city_end_bound [OF th] th b ne show ?thesis by blast
qed

text \<open>
  Claim C5. The travel time from a place to itself is 0, and for a pair of names that has
  no override in either order the travel time is the same in both directions.
\<close>

theorem estimate_travel_minutes_symmetric:
  "estimate_travel_minutes a a = 0 \<and>
   (dict_get TRANSIT_OVERRIDES (a, b) = None \<and> dict_get TRANSIT_OVERRIDES (b, a) = None \<longrightarrow>
      estimate_travel_minutes a b = estimate_travel_minutes b a)"
  using estimate_travel_minutes_same [of a] estimate_travel_minutes_commute [of a b] by blast

theorem estimate_travel_minutes_symmetric_witness:
  "dict_get TRANSIT_OVERRIDES (''London Eye'', ''Borough Market'') = None \<and>
   dict_get TRANSIT_OVERRIDES (''Borough Market'', ''London Eye'') = None \<and>
   estimate_travel_minutes ''London Eye'' ''London Eye'' = 0 \<and>
   estimate_travel_minutes ''London Eye'' ''Borough Market'' =
     estimate_travel_minutes ''Borough Market'' ''London Eye''"
  using estimate_travel_minutes_symmetric [of "''London Eye''" "''Borough Market''"]
  by (simp add: dict_get_def TRANSIT_OVERRIDES_def HOTEL_NAME_def)

text \<open>
  Claim C4. The schedule of an arrival day whose bounds are computed starts with the
  arrival at the airport, then the transfer to the hotel, whose duration is the override
  of the pair (Heathrow Airport, hotel), then the check-in at the hotel, a visit of at
  least 45 minutes; every other segment comes after these three.
\<close>

theorem arrival_day_opening:
  assumes "theme day = ''arrival''" and "get_day_time_bounds day = Inr (s0, e)"
  shows "\<exists>a t c rest. build_day_schedule day = Inr (a # t # c # rest) \<and>
     location a = ''Heathrow Airport'' \<and> segment_type a = ''transport'' \<and> start a = s0 \<and>
     segment_type t = ''transfer'' \<and> start t = end' a \<and>
     dict_get TRANSIT_OVERRIDES (''Heathrow Airport'', HOTEL_NAME) = Some (end' t - start t) \<and>
     location c = HOTEL_NAME \<and> segment_type c = ''visit'' \<and> start c = end' t \<and>
     45 \<le> end' c - start c"
proof -
  from build_day_schedule_arrival_prefix [OF assms] obtain rest where
    "build_day_schedule day = Inr (
     [mk_segment s0 (s0 + 30) ''Arrivee a Heathrow'' ''Heathrow Airport''
        ''Formalites et recuperation des valises.'' ''transport'',
      mk_segment (s0 + 30) (s0 + 105) ''Vers l'hotel''
        ''Heathrow Airport -> citizenM London Bankside''
        ''Heathrow Express jusqu'a Paddington puis taxi/metro (75 min).'' ''transfer'',
      mk_segment (s0 + 105) (s0 + 150) ''Installation a l'hotel'' HOTEL_NAME
        ''Check-in et petite pause pour poser les valises.'' ''visit''] @ rest)" by blast
  moreover have "dict_get TRANSIT_OVERRIDES (''Heathrow Airport'', HOTEL_NAME) = Some 75"
    by (simp add: dict_get_def TRANSIT_OVERRIDES_def HOTEL_NAME_def)
  ultimately show ?thesis by (simp add: mk_segment_def)
qed

theorem arrival_day_opening_witness:
  "theme arrival_day = ''arrival'' \<and> get_day_time_bounds arrival_day = Inr (900, 1380) \<and>
   build_day_schedule arrival_day = Inr arrival_day_schedule \<and>
   (\<exists>a t c rest. build_day_schedule arrival_day = Inr (a # t # c # rest) \<and>
     location a = ''Heathrow Airport'' \<and> segment_type a = ''transport'' \<and> start a = 900 \<and>
     segment_type t = ''transfer'' \<and> start t = end' a \<and>
     dict_get TRANSIT_OVERRIDES (''Heathrow Airport'', HOTEL_NAME) = Some (end' t - start t) \<and>
     location c = HOTEL_NAME \<and> segment_type c = ''visit'' \<and> start c = end' t \<and>
     45 \<le> end' c - start c)"
proof -
  have th: "theme arrival_day = ''arrival''" by (simp add: arrival_day_def mk_day_def)
  have b: "get_day_time_bounds arrival_day = Inr (900, 1380)"
    by (simp add: arrival_day_def default_bounds)
  from arrival_day_opening [OF th b] th b arrival_day_run show ?thesis by blast
qed

text \<open>
  Claim C8. The segments of a day's schedule are contiguous, each ends where the next one
  starts, and no segment ends before it starts.
\<close>

theorem schedule_contiguous:
  "build_day_schedule day = Inr segs \<Longrightarrow>
   (\<forall>i. Suc i < length segs \<longrightarrow> end' (segs ! i) = start (segs ! Suc i)) \<and>
   (\<forall>s\<in>set segs. start s \<le> end' s)"
  using build_day_schedule_chain [of day segs] unfolding chain_def contiguous_def by blast

theorem schedule_contiguous_witness:
  "build_day_schedule departure_day = Inr departure_day_schedule \<and>
   map (\<lambda>s. (start s, end' s)) departure_day_schedule =
     [(420, 428), (428, 503), (503, 511), (511, 586), (586, 631)] \<and>
   (\<exists>segs. build_day_schedule departure_day = Inr segs \<and>
      (\<forall>i. Suc i < length segs \<longrightarrow> end' (segs ! i) = start (segs ! Suc i)) \<and>
      (\<forall>s\<in>set segs. start s \<le> end' s))"
proof -
  have "map (\<lambda>s. (start s, end' s)) departure_day_schedule =
     [(420, 428), (428, 503), (503, 511), (511, 586), (586, 631)]"
    by (simp add: departure_day_schedule_def mk_segment_def)
  with schedule_contiguous [OF departure_day_run] departure_day_run show ?thesis by blast
qed

text \<open>
  Claim C9. When a day lists both Oblix at The Shard and The Shard, no visit or meal
  segment of its schedule is at The Shard.
\<close>

theorem shard_dropped_beside_oblix:
  assumes "''Oblix at The Shard'' \<in> set (locations day)" and "''The Shard'' \<in> set (locations day)"
    and "build_day_schedule day = Inr segs"
  shows "\<forall>s\<in>set segs. segment_type s \<in> {''visit'', ''meal''} \<longrightarrow>
           location s \<noteq> ''The Shard'' \<and> title s \<noteq> ''The Shard''"
proof
  fix s assume s: "s \<in> set segs"
  from assms(3) obtain s0 e where b: "get_day_time_bounds day = Inr (s0, e)"
    by (cases "get_day_time_bounds day") (auto simp: build_day_schedule_def)
  let ?poi = "poi_filter (locations day)"
  have "''Oblix at The Shard'' \<in> set ?poi" "''The Shard'' \<in> set ?poi"
    using assms(1,2) LOCATION_MAP_oblix LOCATION_MAP_shard by (auto simp: poi_filter_def)
  then have "''The Shard'' \<notin> set (drop_shard ?poi)" by (rule drop_shard_no_shard)
  then have V: "''The Shard'' \<notin> set (visits_order_of (theme day) (drop_shard ?poi))"
    using visits_order_of_subset [of "theme day" "drop_shard ?poi"] by auto
  from build_day_schedule_segments [OF assms(3) b s] V
  show "segment_type s \<in> {''visit'', ''meal''} \<longrightarrow>
           location s \<noteq> ''The Shard'' \<and> title s \<noteq> ''The Shard''"
    by (auto simp: loop_seg_def HOTEL_NAME_def)
qed

theorem shard_dropped_beside_oblix_witness:
  "''Oblix at The Shard'' \<in> set (locations dinner_day) \<and>
   ''The Shard'' \<in> set (locations dinner_day) \<and>
   build_day_schedule dinner_day = Inr dinner_day_schedule \<and>
   map location (filter (\<lambda>s. segment_type s \<in> {''visit'', ''meal''}) dinner_day_schedule) =
     [''Borough Market'', ''Oblix at The Shard'', ''Hawksmoor Borough''] \<and>
   (\<exists>segs. build_day_schedule dinner_day = Inr segs \<and>
      (\<forall>s\<in>set segs. segment_type s \<in> {''visit'', ''meal''} \<longrightarrow>
           location s \<noteq> ''The Shard'' \<and> title s \<noteq> ''The Shard''))"
proof -
  have o: "''Oblix at The Shard'' \<in> set (locations dinner_day)"
    and s: "''The Shard'' \<in> set (locations dinner_day)"
    by (simp_all add: dinner_day_def mk_day_def)
  have "map location (filter (\<lambda>s. segment_type s \<in> {''visit'', ''meal''}) dinner_day_schedule) =
     [''Borough Market'', ''Oblix at The Shard'', ''Hawksmoor Borough'']"
    by (simp add: dinner_day_schedule_def mk_segment_def)
  with shard_dropped_beside_oblix [OF o s dinner_day_run] o s dinner_day_run
  show ?thesis by blast
qed

text \<open>
  Claim C10. On a day that is not the arrival day, every visit or meal segment is at a
  place that the catalog knows and whose category is neither transport nor hotel.
\<close>

theorem no_visit_at_transport_or_hotel:
  assumes "theme day \<noteq> ''arrival''" and "build_day_schedule day = Inr segs"
  shows "\<forall>s\<in>set segs. segment_type s \<in> {''visit'', ''meal''} \<longrightarrow>
           (\<exists>info. LOCATION_MAP (location s) = Some info \<and>
              category info \<noteq> ''transport'' \<and> category info \<noteq> ''hotel'')"
proof
  fix s assume s: "s \<in> set segs"
  from assms(2) obtain s0 e where b: "get_day_time_bounds day = Inr (s0, e)"
    by (cases "get_day_time_bounds day") (auto simp: build_day_schedule_def)
  let ?poi = "poi_filter (locations day)"
  let ?V = "set (visits_order_of (theme day) (drop_shard ?poi))"
  have V: "\<exists>info. LOCATION_MAP n = Some info \<and>
              category info \<noteq> ''transport'' \<and> category info \<noteq> ''hotel''" if "n \<in> ?V" for n
  proof -
    from that visits_order_of_subset [of "theme day" "drop_shard ?poi"] drop_shard_subset [of ?poi]
    have "n \<in> set ?poi \<or> n = ''Oblix at The Shard''" by auto
    then show ?thesis using poi_filter_category [of n "locations day"] LOCATION_MAP_oblix by auto
  qed
  show "segment_type s \<in> {''visit'', ''meal''} \<longrightarrow>
           (\<exists>info. LOCATION_MAP (location s) = Some info \<and>
              category info \<noteq> ''transport'' \<and> category info \<noteq> ''hotel'')"
  proof
    assume ty: "segment_type s \<in> {''visit'', ''meal''}"
    from build_day_schedule_segments [OF assms(2) b s] assms(1) ty
    have "loop_seg e ?V s" by auto
    with ty have "location s \<in> ?V" by (auto simp: loop_seg_def)
    then show "\<exists>info. LOCATION_MAP (location s) = Some info \<and>
              category info \<noteq> ''transport'' \<and> category info \<noteq> ''hotel''" by (rule V)
  qed
qed

theorem no_visit_at_transport_or_hotel_witness:
  "theme pier_day \<noteq> ''arrival'' \<and> ''Westminster Pier'' \<in> set (locations pier_day) \<and>
   build_day_schedule pier_day = Inr pier_day_schedule \<and>
   map location (filter (\<lambda>s. segment_type s \<in> {''visit'', ''meal''}) pier_day_schedule) =
     [''Borough Market''] \<and>
   (\<exists>segs. build_day_schedule pier_day = Inr segs \<and>
      (\<forall>s\<in>set segs. segment_type s \<in> {''visit'', ''meal''} \<longrightarrow>
           (\<exists>info. LOCATION_MAP (location s) = Some info \<and>
              category info \<noteq> ''transport'' \<and> category info \<noteq> ''hotel'')))"
proof -
  have th: "theme pier_day \<noteq> ''arrival''" and p: "''Westminster Pier'' \<in> set (locations pier_day)"
    by (simp_all add: pier_day_def mk_day_def)
  have "map location (filter (\<lambda>s. segment_type s \<in> {''visit'', ''meal''}) pier_day_schedule) =
     [''Borough Market'']"
    by (simp add: pier_day_schedule_def mk_segment_def)
  with no_visit_at_transport_or_hotel [OF th pier_day_run] th p pier_day_run
  show ?thesis by blast
qed

text \<open>
  Claim C1, as stated, fails: on the day that runs from 9:00 to 10:40 the second meal is
  clamped to its minimum of 30 minutes and ends at 11:01, and the return to the hotel ends
  at 11:09; on the departure day that starts at 11:30 and is bounded by 12:30 the transfer
  to the airport ends at 12:45 and the formalities at 13:30.
\<close>

theorem schedule_exceeds_bound_counterexample:
  "get_day_time_bounds short_day = Inr (540, 640) \<and>
   build_day_schedule short_day = Inr short_day_schedule \<and>
   map (\<lambda>s. (title s, end' s)) short_day_schedule =
     [(''Trajet vers Borough Market'', 548), (''Borough Market'', 623),
      (''Trajet vers Hawksmoor Borough'', 631), (''Hawksmoor Borough'', 661),
      (''Retour a l'hotel'', 669)] \<and>
   get_day_time_bounds late_departure_day = Inr (690, 750) \<and>
   build_day_schedule late_departure_day = Inr late_departure_schedule \<and>
   map (\<lambda>s. (title s, end' s)) late_departure_schedule =
     [(''Transfert vers Heathrow'', 765), (''Formalites de depart'', 810)]"
  using short_day_bounds short_day_run late_departure_bounds late_departure_run
  by (simp add: short_day_schedule_def late_departure_schedule_def mk_segment_def)

text \<open>
  Claim C1, amended. Every segment of a day's schedule ends at or before the day's end
  bound, unless it is a visit or meal that starts at or before the bound and is clamped
  to 30 minutes, or one of the segments appended without a check of the bound: the
  arrival block, the return to the hotel and the departure block.
\<close>

theorem schedule_within_bound_or_unchecked:
  assumes "get_day_time_bounds day = Inr (s0, e)" and "build_day_schedule day = Inr segs"
  shows "\<forall>s\<in>set segs.
           end' s \<le> e \<or>
           (segment_type s \<in> {''visit'', ''meal''} \<and> start s \<le> e \<and> end' s = start s + 30) \<or>
           title s \<in> unchecked_titles"
proof
  fix s assume s: "s \<in> set segs"
  from build_day_schedule_segments [OF assms(2) assms(1) s]
  show "end' s \<le> e \<or>
           (segment_type s \<in> {''visit'', ''meal''} \<and> start s \<le> e \<and> end' s = start s + 30) \<or>
           title s \<in> unchecked_titles"
    by (auto simp: loop_seg_def unchecked_titles_def split: if_splits)
qed

theorem schedule_within_bound_or_unchecked_witness:
  "get_day_time_bounds short_day = Inr (540, 640) \<and>
   build_day_schedule short_day = Inr short_day_schedule \<and>
   (\<exists>segs. build_day_schedule short_day = Inr segs \<and>
      (\<forall>s\<in>set segs.
           end' s \<le> 640 \<or>
           (segment_type s \<in> {''visit'', ''meal''} \<and> start s \<le> 640 \<and> end' s = start s + 30) \<or>
           title s \<in> unchecked_titles))"
  using schedule_within_bound_or_unchecked [OF short_day_bounds short_day_run]
    short_day_bounds short_day_run by blast
text \<open>
  Claim C2. The module announces that duplicate activities are regrouped on the most
  logical day, and the claim asks that a name outside the whitelist ends on one day at
  most. London Eye is not whitelisted and two days list it: the deduplication returns
  both days as they are, London Eye on each and nothing recorded as removed.
\<close>

theorem landmark_left_on_two_days:
  "''London Eye'' \<notin> DEDUP_WHITELIST \<and>
   merge_duplicate_locations eye_days = Inr eye_days \<and>
   map locations eye_days = [[''London Eye''], [''London Eye'']] \<and>
   map removed_duplicates eye_days = [[], []]"
  using eye_days_merge
  by (simp add: DEDUP_WHITELIST_def HOTEL_NAME_def eye_days_def mk_day_def)

text \<open>
  The extent of the defect. On days numbered by their position, the guard of the loop
  skips every name that is neither whitelisted nor a catalog entry of category transport
  or hotel: such a name stays on each day as often as it was listed. Only the names that
  the guard lets through are brought to one day, the hotel on arrival days not counted.
\<close>

lemma guard_skips_activities:
  assumes "indexed_by_position days" and "merge_duplicate_locations days = Inr days'"
  shows "(n \<in> DEDUP_WHITELIST \<or>
            (\<exists>info. LOCATION_MAP n = Some info \<and> category info \<in> {''transport'', ''hotel''}) \<longrightarrow>
            length (filter (\<lambda>d. n \<in> set (locations d) \<and>
                                 \<not> (n = HOTEL_NAME \<and> theme d = ''arrival'')) days') \<le> 1) \<and>
         (n \<notin> DEDUP_WHITELIST \<and>
            (\<forall>info. LOCATION_MAP n = Some info \<longrightarrow> category info \<notin> {''transport'', ''hotel''}) \<longrightarrow>
            map (\<lambda>d. count_list (locations d) n) days' = map (\<lambda>d. count_list (locations d) n) days)"
proof -
  from merge_duplicate_locations_props [OF assms(1)] assms(2)
  obtain cs where r: "merge_relates cs (index_by_loc_of days) days days'" by auto
  then have len: "length days' = length days" by (simp add: merge_relates_def)
  have th: "theme (days' ! i) = theme (days ! i)" if "i < length days" for i
    using r that by (simp add: merge_relates_def)
  have one: "length (filter (\<lambda>d. n \<in> set (locations d) \<and>
                                 \<not> (n = HOTEL_NAME \<and> theme d = ''arrival'')) days') \<le> 1"
    if g: "dedup_applies n"
  proof -
    from merge_single_day [OF assms(1) r g] obtain b where
      b: "\<forall>i<length days. n \<in> set (locations (days' ! i)) \<longrightarrow>
               int i = b \<or> (n = HOTEL_NAME \<and> theme (days ! i) = ''arrival'')" by blast
    show ?thesis
    proof (rule filter_at_most_one, intro allI impI)
      fix i j assume i: "i < length days'" and j: "j < length days'"
        and p: "(n \<in> set (locations (days' ! i)) \<and> \<not> (n = HOTEL_NAME \<and> theme (days' ! i) = ''arrival'')) \<and>
                (n \<in> set (locations (days' ! j)) \<and> \<not> (n = HOTEL_NAME \<and> theme (days' ! j) = ''arrival''))"
      from b i p th [of i] len have "int i = b" by auto
      moreover from b j p th [of j] len have "int j = b" by auto
      ultimately show "i = j" by simp
    qed
  qed
  have same: "map (\<lambda>d. count_list (locations d) n) days' = map (\<lambda>d. count_list (locations d) n) days"
    if g: "\<not> dedup_applies n"
  proof (rule nth_equalityI)
    show "length (map (\<lambda>d. count_list (locations d) n) days') =
          length (map (\<lambda>d. count_list (locations d) n) days)" using len by simp
    fix i assume "i < length (map (\<lambda>d. count_list (locations d) n) days')"
    then have i: "i < length days" using len by simp
    with r g have "count_list (locations (days' ! i)) n = count_list (locations (days ! i)) n"
      by (simp add: merge_relates_def)
    with i len show "map (\<lambda>d. count_list (locations d) n) days' ! i =
          map (\<lambda>d. count_list (locations d) n) days ! i" by simp
  qed
  from one same show ?thesis unfolding dedup_applies_iff by blast
qed




end
